theory Spec2Isabelle
  imports Main
begin

section \<open>Scene data (frontend/src/types/scene.ts)\<close>

text \<open>
  The snapshot the server pushes. Only the fields the modelled managers read are kept;
  the remaining fields of the TypeScript interfaces (thoughts, timestamps, ratings,
  llm_config, ...) are carried by the code unchanged and never inspected by it.
  JavaScript numbers that hold pixel coordinates or whole seconds are integers here.
\<close>

datatype CharacterAction =
    thinking | thinking_love | thinking_anger | thinking_sadness
  | thinking_surprise | thinking_fear | speaking | idle

datatype Direction = dir_front | dir_right | dir_left | dir_back

record Message =
  character :: string
  content :: "string option"
  recipient :: string
  mood :: string
  mood_emoji :: string
  calculated_speaking_time :: int
  end_conversation :: bool

record CharacterState =
  name :: string
  color :: string
  position :: "int \<times> int"
  direction :: Direction
  current_mood :: string
  action :: CharacterAction

text \<open>
  \<open>characters\<close> is a JavaScript object used as a dictionary; the code only walks it
  with \<open>Object.entries\<close>, so it is the list of its entries in that order. The keys of
  an object are pairwise different: \<open>wellformed\<close> says so.
\<close>

record SceneState =
  scene_id :: int
  characters :: "(string \<times> CharacterState) list"
  messages :: "Message list"
  conversation_active :: bool
  conversation_ended :: bool

definition wellformed :: "SceneState \<Rightarrow> bool" where
  "wellformed s = distinct (map fst (characters s))"

text \<open>The literal of each action, and \<open>action.startsWith('thinking')\<close>.\<close>

fun action_name :: "CharacterAction \<Rightarrow> string" where
  "action_name thinking = ''thinking''"
| "action_name thinking_love = ''thinking:love''"
| "action_name thinking_anger = ''thinking:anger''"
| "action_name thinking_sadness = ''thinking:sadness''"
| "action_name thinking_surprise = ''thinking:surprise''"
| "action_name thinking_fear = ''thinking:fear''"
| "action_name speaking = ''speaking''"
| "action_name idle = ''idle''"

fun direction_name :: "Direction \<Rightarrow> string" where
  "direction_name dir_front = ''front''"
| "direction_name dir_right = ''right''"
| "direction_name dir_left = ''left''"
| "direction_name dir_back = ''back''"

definition startsWith_thinking :: "CharacterAction \<Rightarrow> bool" where
  "startsWith_thinking a = (take 8 (action_name a) = ''thinking'')"

text \<open>
  Exceptions. A handler that throws keeps the mutations it made before the throw, so an
  outcome carries the state in both cases.
\<close>

datatype error = TypeError | ListenerError nat

datatype 'a outcome = Done 'a | Raised error 'a

fun state_of :: "'a outcome \<Rightarrow> 'a" where
  "state_of (Done a) = a"
| "state_of (Raised e a) = a"

fun raised :: "'a outcome \<Rightarrow> bool" where
  "raised (Done a) = False"
| "raised (Raised e a) = True"

fun map_outcome :: "('a \<Rightarrow> 'b) \<Rightarrow> 'a outcome \<Rightarrow> 'b outcome" where
  "map_outcome f (Done a) = Done (f a)"
| "map_outcome f (Raised e a) = Raised e (f a)"

section \<open>CharacterManager (game/managers/CharacterManager.ts)\<close>

text \<open>
  A Phaser sprite as far as the manager drives it: where it is, its texture key, the
  animation it plays and its tint. A tween is only ever created running and stopped.
\<close>

record Sprite =
  sprite_pos :: "int \<times> int"
  texture :: string
  anim :: "string option"
  tint :: nat

datatype Tween = Running | Stopped

record Character =
  char_id :: string
  char_state :: CharacterState
  sprite :: Sprite
  activeTween :: "Tween option"
  thinkingSprite :: "Sprite option"
  char_color :: string

type_synonym Characters = "string \<rightharpoonup> Character"

definition ACTIVE_TINT :: nat where "ACTIVE_TINT = 0xffffff"
definition INACTIVE_TINT :: nat where "INACTIVE_TINT = 0xaaaaaa"
definition THINKING_OFFSET_Y :: int where "THINKING_OFFSET_Y = - 60"

definition new_sprite :: "int \<times> int \<Rightarrow> string \<Rightarrow> Sprite" where
  "new_sprite p key = \<lparr>sprite_pos = p, texture = key, anim = None, tint = 0xffffff\<rparr>"

definition clearCharacterAnimations :: "Character \<Rightarrow> Character" where
  "clearCharacterAnimations c = c\<lparr>activeTween := None, thinkingSprite := None\<rparr>"

definition clearCharactersAnimations :: "Characters \<Rightarrow> Characters" where
  "clearCharactersAnimations cs = (\<lambda>k. map_option clearCharacterAnimations (cs k))"

definition createThinkingSprite :: "Character \<Rightarrow> CharacterAction \<Rightarrow> Character" where
  "createThinkingSprite c a =
     c\<lparr>thinkingSprite :=
         Some ((new_sprite (fst (sprite_pos (sprite c)),
                            snd (sprite_pos (sprite c)) + THINKING_OFFSET_Y)
                  (action_name a))
               \<lparr>anim := Some (action_name a)\<rparr>)\<rparr>"

definition createBounceTween :: "Character \<Rightarrow> Character" where
  "createBounceTween c = c\<lparr>activeTween := Some Running\<rparr>"

text \<open>
  \<open>updateCharacterState\<close>: the new state replaces the old one; an idle character loses
  its tween, any other has its tween stopped and gets a new one only when the action
  changed; the thinking sprite follows the action. With integer coordinates the
  pixel-snapping \<open>y - y % 1\<close> of the idle branch leaves \<open>y\<close> as it is.
\<close>

definition updateCharacterState :: "Character \<Rightarrow> CharacterState \<Rightarrow> Character" where
  "updateCharacterState c st =
     (let previousState = char_state c;
          c1 = c\<lparr>char_state := st\<rparr>;
          isChange = (action st \<noteq> action previousState);
          c2 = (if action st = idle
                then c1\<lparr>activeTween := None, sprite := (sprite c1)\<lparr>tint := INACTIVE_TINT\<rparr>\<rparr>
                else (let c1' = c1\<lparr>activeTween := map_option (\<lambda>t. Stopped) (activeTween c1),
                                    sprite := (sprite c1)\<lparr>tint := ACTIVE_TINT\<rparr>\<rparr>
                      in if isChange then createBounceTween c1' else c1'))
      in if startsWith_thinking (action st)
         then (if thinkingSprite c2 = None then createThinkingSprite c2 (action st) else c2)
         else c2\<lparr>thinkingSprite := None\<rparr>)"

definition updateCharacter :: "string \<times> CharacterState \<Rightarrow> Characters \<Rightarrow> Characters" where
  "updateCharacter e cs =
     (let ident = fst e; charData = snd e;
          c = (case cs ident of
                 None \<Rightarrow> \<lparr>char_id = ident, char_state = charData,
                           sprite = new_sprite (position charData) ident,
                           activeTween = None, thinkingSprite = None,
                           char_color = color charData\<rparr>
               | Some c0 \<Rightarrow> c0\<lparr>char_color := color charData\<rparr>);
          c' = c\<lparr>sprite := (sprite c)\<lparr>sprite_pos := position charData,
                      anim := Some (ident @ ''_idle_'' @ direction_name (direction charData))\<rparr>\<rparr>
      in cs(ident \<mapsto> updateCharacterState c' charData))"

definition updateCharacters :: "SceneState \<Rightarrow> Characters \<Rightarrow> Characters" where
  "updateCharacters s cs = fold updateCharacter (characters s) cs"

section \<open>SpeechBubbleManager (game/managers/SpeechBubbleManager.ts)\<close>

text \<open>
  A bubble as the manager builds it: the message text, the speaker's name in the
  speaker's colour, the mood emoji, the progress bar's duration when there is one, and
  the sprite position it hangs above. Sizes in pixels come from Phaser's text
  measurement and are left out.
\<close>

record SpeechBubble =
  bubble_text :: string
  nameText :: string
  nameColor :: string
  moodText :: string
  progressBar :: "int option"
  speaker_pos :: "int \<times> int"

type_synonym Bubbles = "string \<rightharpoonup> SpeechBubble"

definition clearBubbles :: "Bubbles \<Rightarrow> Bubbles" where
  "clearBubbles bs = Map.empty"

text \<open>
  \<open>createSpeechBubble\<close>. \<open>character?.color || '#000000'\<close> falls back for a missing
  character and for an empty colour; the progress bar exists for a speaking time that is
  truthy and positive.
\<close>

definition createSpeechBubble ::
  "Characters \<Rightarrow> Sprite \<Rightarrow> string \<Rightarrow> string \<Rightarrow> string \<Rightarrow> int option \<Rightarrow> string
     \<Rightarrow> Bubbles \<Rightarrow> Bubbles" where
  "createSpeechBubble cs speaker txt characterId characterName speakingTime emoji bs =
     (let characterColor =
            (case cs characterId of
               None \<Rightarrow> ''#000000''
             | Some c \<Rightarrow> if char_color c = [] then ''#000000'' else char_color c);
          bar = (case speakingTime of
                   None \<Rightarrow> None
                 | Some t \<Rightarrow> if t \<noteq> 0 \<and> t > 0 then Some t else None)
      in bs(characterId \<mapsto>
             \<lparr>bubble_text = txt, nameText = characterName, nameColor = characterColor,
              moodText = emoji, progressBar = bar, speaker_pos = sprite_pos speaker\<rparr>))"

text \<open>
  \<open>state.messages.filter((m) => m.character === key).slice(-1)[0]\<close>: the last message of
  the character, \<open>undefined\<close> (here \<open>None\<close>) when it has none.
\<close>

definition latestMessage :: "string \<Rightarrow> Message list \<Rightarrow> Message option" where
  "latestMessage key ms =
     (case filter (\<lambda>m. character m = key) ms of [] \<Rightarrow> None | m # rest \<Rightarrow> Some (last (m # rest)))"

text \<open>A string or null is truthy when it is a non-empty string.\<close>

fun truthy :: "string option \<Rightarrow> bool" where
  "truthy None = False"
| "truthy (Some s) = (s \<noteq> [])"

text \<open>
  The body of the loop of \<open>updateBubbles\<close> for one entry. In
  \<open>character && message.content\<close> the right operand is evaluated only for a known
  character; reading \<open>.content\<close> of \<open>undefined\<close> throws a TypeError.
\<close>

definition bubbleStep ::
  "Characters \<Rightarrow> Message list \<Rightarrow> string \<times> CharacterState \<Rightarrow> Bubbles \<Rightarrow> Bubbles outcome" where
  "bubbleStep cs ms e bs =
     (let key = fst e; val = snd e in
      if action val = speaking then
        (case cs key of
           None \<Rightarrow> Done bs
         | Some ch \<Rightarrow>
             (case latestMessage key ms of
                None \<Rightarrow> Raised TypeError bs
              | Some m \<Rightarrow>
                  if truthy (content m)
                  then Done (createSpeechBubble cs (sprite ch) (the (content m)) key (name val)
                               (Some (calculated_speaking_time m)) (mood_emoji m) bs)
                  else Done bs))
      else Done bs)"

fun bubbleLoop ::
  "Characters \<Rightarrow> Message list \<Rightarrow> (string \<times> CharacterState) list \<Rightarrow> Bubbles \<Rightarrow> Bubbles outcome" where
  "bubbleLoop cs ms [] bs = Done bs"
| "bubbleLoop cs ms (e # es) bs =
     (case bubbleStep cs ms e bs of
        Raised err bs' \<Rightarrow> Raised err bs'
      | Done bs' \<Rightarrow> bubbleLoop cs ms es bs')"

definition updateBubbles :: "Characters \<Rightarrow> SceneState \<Rightarrow> Bubbles \<Rightarrow> Bubbles outcome" where
  "updateBubbles cs s bs = bubbleLoop cs (messages s) (characters s) (clearBubbles bs)"

text \<open>
  \<open>showHistoricalBubble\<close> receives \<open>messages[i]\<close>, which is \<open>undefined\<close> out of range;
  the bubbles are cleared before \<open>message.character\<close> is read.
\<close>

definition showHistoricalBubble :: "Characters \<Rightarrow> Message option \<Rightarrow> Bubbles \<Rightarrow> Bubbles outcome" where
  "showHistoricalBubble cs message bs =
     (case message of
        None \<Rightarrow> Raised TypeError (clearBubbles bs)
      | Some m \<Rightarrow>
          (case cs (character m) of
             None \<Rightarrow> Done (clearBubbles bs)
           | Some ch \<Rightarrow>
               Done (createSpeechBubble cs (sprite ch)
                       (case content m of None \<Rightarrow> [] | Some t \<Rightarrow> t)
                       (character m) (name (char_state ch)) None (mood_emoji m)
                       (clearBubbles bs))))"

section \<open>The game: StateManager, HistoryManager and the events between them\<close>

text \<open>
  The managers are objects that call one another through the Phaser game's event
  emitter, synchronously. Their fields form one record:
  \<^item> \<open>currentState\<close>, \<open>isInHistoryMode\<close>: StateManager;
  \<^item> \<open>chars\<close>: CharacterManager's \<open>characters\<close> map;
  \<^item> \<open>activeBubbles\<close>: SpeechBubbleManager;
  \<^item> \<open>historyMode\<close>, \<open>currentHistoryIndex\<close>, \<open>conversationHistory\<close>: HistoryManager;
  \<^item> \<open>controls\<close>: UIControlsManager's \<open>controls\<close>, \<open>None\<close> for null, otherwise the
    children of the navigation container, in order;
  \<^item> \<open>navFeedback\<close>: the buttons on which an invalid-navigation tween was started, in
    order;
  \<^item> \<open>invalidIndexWarnings\<close>: the indices reported by \<open>Logger.warn\<close> as invalid, in
    order.
  The Logger.info calls change nothing and are left out.
\<close>

datatype NavButton = prevButton | nextButton

record Game =
  currentState :: "SceneState option"
  isInHistoryMode :: bool
  chars :: Characters
  activeBubbles :: Bubbles
  historyMode :: bool
  currentHistoryIndex :: int
  conversationHistory :: "Message list"
  controls :: "NavButton list option"
  navFeedback :: "NavButton list"
  invalidIndexWarnings :: "int list"

text \<open>\<open>xs[i]\<close> of JavaScript: \<open>undefined\<close> outside the array.\<close>

definition at_index :: "'a list \<Rightarrow> int \<Rightarrow> 'a option" where
  "at_index xs i = (if 0 \<le> i \<and> i < int (length xs) then Some (xs ! nat i) else None)"

definition initial_game :: Game where
  "initial_game =
     \<lparr>currentState = None, isInHistoryMode = False, chars = Map.empty,
      activeBubbles = Map.empty, historyMode = False, currentHistoryIndex = - 1,
      conversationHistory = [], controls = Some [], navFeedback = [],
      invalidIndexWarnings = []\<rparr>"

subsection \<open>HistoryManager's listener of sceneStateUpdate\<close>

definition on_sceneStateUpdate :: "SceneState \<Rightarrow> Game \<Rightarrow> Game" where
  "on_sceneStateUpdate s g =
     (if \<not> historyMode g
      then g\<lparr>conversationHistory := messages s,
             currentHistoryIndex := int (length (messages s)) - 1\<rparr>
      else g)"

subsection \<open>StateManager (game/managers/StateManager.ts)\<close>

definition updateState :: "SceneState \<Rightarrow> Game \<Rightarrow> Game outcome" where
  "updateState newState g =
     (let g1 = g\<lparr>currentState := Some newState\<rparr> in
      if \<not> isInHistoryMode g1 then
        (let g2 = g1\<lparr>chars := updateCharacters newState (chars g1)\<rparr> in
         case updateBubbles (chars g2) newState (activeBubbles g2) of
           Raised e bs \<Rightarrow> Raised e (g2\<lparr>activeBubbles := bs\<rparr>)
         | Done bs \<Rightarrow> Done (on_sceneStateUpdate newState (g2\<lparr>activeBubbles := bs\<rparr>)))
      else Done g1)"

definition historyModeChange :: "bool \<Rightarrow> Game \<Rightarrow> Game outcome" where
  "historyModeChange b g =
     (let g1 = g\<lparr>isInHistoryMode := b\<rparr> in
      case currentState g1 of
        None \<Rightarrow> Done g1
      | Some cur \<Rightarrow>
          if b then
            (case showHistoricalBubble (chars g1)
                    (at_index (messages cur) (int (length (messages cur)) - 1))
                    (activeBubbles g1) of
               Raised e bs \<Rightarrow> Raised e (g1\<lparr>activeBubbles := bs\<rparr>)
             | Done bs \<Rightarrow> Done (g1\<lparr>activeBubbles := bs\<rparr>))
          else
            (let g2 = g1\<lparr>chars := updateCharacters cur (chars g1)\<rparr> in
             case updateBubbles (chars g2) cur (activeBubbles g2) of
               Raised e bs \<Rightarrow> Raised e (g2\<lparr>activeBubbles := bs\<rparr>)
             | Done bs \<Rightarrow> Done (g2\<lparr>activeBubbles := bs\<rparr>)))"

definition StateManager_navigateHistory :: "int \<Rightarrow> Game \<Rightarrow> Game outcome" where
  "StateManager_navigateHistory i g =
     (case currentState g of
        None \<Rightarrow> Done g
      | Some cur \<Rightarrow>
          if isInHistoryMode g \<and> at_index (messages cur) i \<noteq> None then
            (case showHistoricalBubble (chars g) (at_index (messages cur) i) (activeBubbles g) of
               Raised e bs \<Rightarrow> Raised e (g\<lparr>activeBubbles := bs\<rparr>)
             | Done bs \<Rightarrow> Done (g\<lparr>activeBubbles := bs\<rparr>))
          else Done g)"

subsection \<open>The historyModeChange event\<close>

text \<open>
  Three listeners. UIControlsManager's, registered by \<open>createControls\<close> in
  UIScene.create, runs \<open>updateControlsVisibility\<close>: it asks HistoryManager for the mode,
  and with controls present it adds a previous and a next button to the navigation
  container in History mode (\<open>createNavigationButtons\<close>) and removes all children in
  Live mode; what else it does is layout and text. MainScene.create registers
  CharacterManager's listener and then EventManager's, which forwards to StateManager.
  The emitter calls the listeners in the order of registration and does not catch what
  they throw. Which of the two scenes is created first is decided by the loading of
  their assets, not by the source; the listener of UIScene, the scene that emits the
  event, is taken first here.
\<close>

definition UIControlsManager_onHistoryModeChange :: "Game \<Rightarrow> Game" where
  "UIControlsManager_onHistoryModeChange g =
     (case controls g of
        None \<Rightarrow> g
      | Some buttons \<Rightarrow>
          if historyMode g
          then g\<lparr>controls := Some (buttons @ [prevButton, nextButton])\<rparr>
          else g\<lparr>controls := Some []\<rparr>)"

definition CharacterManager_handleHistoryModeChange :: "bool \<Rightarrow> Game \<Rightarrow> Game" where
  "CharacterManager_handleHistoryModeChange b g =
     (if b then g\<lparr>chars := clearCharactersAnimations (chars g)\<rparr> else g)"

definition emit_historyModeChange :: "bool \<Rightarrow> Game \<Rightarrow> Game outcome" where
  "emit_historyModeChange b g =
     historyModeChange b
       (CharacterManager_handleHistoryModeChange b (UIControlsManager_onHistoryModeChange g))"

subsection \<open>HistoryManager (game/managers/HistoryManager.ts)\<close>

definition handleEnterHistoryMode :: "Game \<Rightarrow> Game outcome" where
  "handleEnterHistoryMode g =
     emit_historyModeChange True
       (g\<lparr>historyMode := True,
          currentHistoryIndex := int (length (conversationHistory g)) - 1\<rparr>)"

definition handleExitHistoryMode :: "Game \<Rightarrow> Game outcome" where
  "handleExitHistoryMode g =
     emit_historyModeChange False
       (g\<lparr>historyMode := False,
          currentHistoryIndex := int (length (conversationHistory g)) - 1\<rparr>)"

text \<open>
  The visual feedback of the rejected branch: the tween is started on child
  \<open>direction === -1 ? 0 : 1\<close> of the navigation container, when the controls and that
  child exist.
\<close>

definition invalidFeedback :: "int \<Rightarrow> Game \<Rightarrow> Game" where
  "invalidFeedback d g =
     (case controls g of
        None \<Rightarrow> g
      | Some buttons \<Rightarrow>
          (case at_index buttons (if d = - 1 then 0 else 1) of
             None \<Rightarrow> g
           | Some button \<Rightarrow> g\<lparr>navFeedback := navFeedback g @ [button]\<rparr>))"

definition navigateHistory :: "int \<Rightarrow> Game \<Rightarrow> Game outcome" where
  "navigateHistory d g =
     (let newIndex = currentHistoryIndex g + d in
      if newIndex \<ge> 0 \<and> newIndex < int (length (conversationHistory g))
      then StateManager_navigateHistory newIndex (g\<lparr>currentHistoryIndex := newIndex\<rparr>)
      else Done (invalidFeedback d
                   (g\<lparr>invalidIndexWarnings := invalidIndexWarnings g @ [newIndex]\<rparr>)))"

subsection \<open>Events reaching the game\<close>

datatype GameEvent =
    scene_state SceneState
  | enterHistoryMode
  | exitHistoryMode
  | historyNavigateTo int

fun handle :: "GameEvent \<Rightarrow> Game \<Rightarrow> Game outcome" where
  "handle (scene_state s) g = updateState s g"
| "handle enterHistoryMode g = handleEnterHistoryMode g"
| "handle exitHistoryMode g = handleExitHistoryMode g"
| "handle (historyNavigateTo d) g = navigateHistory d g"

text \<open>
  Each event is one run of its handler; an exception ends that run only, and the next
  event finds the fields as the aborted handler left them.
\<close>

definition run :: "GameEvent list \<Rightarrow> Game \<Rightarrow> Game" where
  "run es g = fold (\<lambda>e g'. state_of (handle e g')) es g"


section \<open>SocketService (services/socket.ts)\<close>

text \<open>
  The service wraps one socket.io socket. The library is not part of the repository:
  \<open>io(...)\<close> yields a socket that is not yet connected, and the library sets
  \<open>socket.connected\<close> before it emits \<open>connect\<close> and clears it before \<open>disconnect\<close>. The
  library calls \<open>socket.disconnect()\<close> and \<open>socket.connect()\<close> change no field of the
  service.

  A listener is a callback; what matters of its body is whether it throws. \<open>calls\<close>
  records every invocation of a callback with the data passed, in order.
\<close>

datatype EventName = ev_scene_state | ev_connect | ev_disconnect | ev_connect_error

datatype EventData = SceneData SceneState | NoData | ErrorData string

datatype Callback = Callback (cb_id: nat) (cb_throws: bool)

record Socket =
  sock_connected :: bool

record SocketService =
  socket :: "Socket option"
  listeners :: "EventName \<rightharpoonup> Callback list"
  reconnectAttempts :: nat
  isConnecting :: bool
  calls :: "(Callback \<times> EventData) list"

definition MAX_RECONNECT_ATTEMPTS :: nat where
  "MAX_RECONNECT_ATTEMPTS = 5"

definition initial_service :: SocketService where
  "initial_service =
     \<lparr>socket = None, listeners = Map.empty, reconnectAttempts = 0, isConnecting = False,
      calls = []\<rparr>"

text \<open>
  \<open>Set.forEach((callback) => callback(data))\<close>: insertion order, and nothing catches
  what a callback throws, so the first throw ends the walk.
\<close>

fun forEach_callback ::
  "Callback list \<Rightarrow> EventData \<Rightarrow> (Callback \<times> EventData) list
     \<Rightarrow> (Callback \<times> EventData) list outcome" where
  "forEach_callback [] d log = Done log"
| "forEach_callback (cb # cbs) d log =
     (if cb_throws cb then Raised (ListenerError (cb_id cb)) (log @ [(cb, d)])
      else forEach_callback cbs d (log @ [(cb, d)]))"

definition notifyListeners :: "EventName \<Rightarrow> EventData \<Rightarrow> SocketService \<Rightarrow> SocketService outcome" where
  "notifyListeners ev d s =
     (case listeners s ev of
        None \<Rightarrow> Done s
      | Some cbs \<Rightarrow> map_outcome (\<lambda>log. s\<lparr>calls := log\<rparr>) (forEach_callback cbs d (calls s)))"

text \<open>A JavaScript Set keeps insertion order and ignores an element it already holds.\<close>

definition addListener :: "EventName \<Rightarrow> Callback \<Rightarrow> SocketService \<Rightarrow> SocketService" where
  "addListener ev cb s =
     (let cbs = (case listeners s ev of None \<Rightarrow> [] | Some l \<Rightarrow> l)
      in s\<lparr>listeners := (listeners s)(ev \<mapsto> (if cb \<in> set cbs then cbs else cbs @ [cb]))\<rparr>)"

definition removeListener :: "EventName \<Rightarrow> Callback \<Rightarrow> SocketService \<Rightarrow> SocketService" where
  "removeListener ev cb s =
     (case listeners s ev of
        None \<Rightarrow> s
      | Some l \<Rightarrow> s\<lparr>listeners := (listeners s)(ev \<mapsto> removeAll cb l)\<rparr>)"

definition disconnect :: "SocketService \<Rightarrow> SocketService" where
  "disconnect s =
     (case socket s of
        None \<Rightarrow> s
      | Some k \<Rightarrow> s\<lparr>socket := None, isConnecting := False\<rparr>)"

definition connect :: "SocketService \<Rightarrow> SocketService" where
  "connect s =
     (if (case socket s of None \<Rightarrow> False | Some k \<Rightarrow> sock_connected k) \<or> isConnecting s
      then s
      else s\<lparr>isConnecting := True, socket := Some \<lparr>sock_connected = False\<rparr>\<rparr>)"

subsection \<open>The handlers registered in connect()\<close>

definition on_connect :: "SocketService \<Rightarrow> SocketService outcome" where
  "on_connect s = notifyListeners ev_connect NoData (s\<lparr>reconnectAttempts := 0, isConnecting := False\<rparr>)"

definition on_connect_error :: "string \<Rightarrow> SocketService \<Rightarrow> SocketService outcome" where
  "on_connect_error msg s =
     (case notifyListeners ev_connect_error (ErrorData msg)
             (s\<lparr>reconnectAttempts := reconnectAttempts s + 1\<rparr>) of
        Raised e s' \<Rightarrow> Raised e s'
      | Done s' \<Rightarrow>
          if reconnectAttempts s' \<ge> MAX_RECONNECT_ATTEMPTS then Done (disconnect s')
          else Done s')"

text \<open>
  After the listeners, a server-initiated disconnect (\<open>'io server disconnect'\<close>) calls
  \<open>socket.connect()\<close>, a library call.
\<close>

definition on_disconnect :: "string \<Rightarrow> SocketService \<Rightarrow> SocketService outcome" where
  "on_disconnect reason s = notifyListeners ev_disconnect NoData (s\<lparr>isConnecting := False\<rparr>)"

definition on_error :: "string \<Rightarrow> SocketService \<Rightarrow> SocketService outcome" where
  "on_error msg s = Done (s\<lparr>isConnecting := False\<rparr>)"

definition on_scene_state :: "SceneState \<Rightarrow> SocketService \<Rightarrow> SocketService outcome" where
  "on_scene_state st s = notifyListeners ev_scene_state (SceneData st) s"

datatype SocketEvent =
    sock_connect
  | sock_connect_error string
  | sock_disconnect string
  | sock_error string
  | sock_scene_state SceneState

text \<open>
  One run of the handler of an event. The handlers are closures registered on the
  socket; they do not look at \<open>this.socket\<close> before they run.
\<close>

definition deliver :: "SocketEvent \<Rightarrow> SocketService \<Rightarrow> SocketService outcome" where
  "deliver e s =
     (case e of
        sock_connect \<Rightarrow>
          on_connect (s\<lparr>socket := map_option (\<lambda>k. k\<lparr>sock_connected := True\<rparr>) (socket s)\<rparr>)
      | sock_connect_error msg \<Rightarrow> on_connect_error msg s
      | sock_disconnect reason \<Rightarrow>
          on_disconnect reason
            (s\<lparr>socket := map_option (\<lambda>k. k\<lparr>sock_connected := False\<rparr>) (socket s)\<rparr>)
      | sock_error msg \<Rightarrow> on_error msg s
      | sock_scene_state st \<Rightarrow> on_scene_state st s)"

text \<open>
  What the library makes of a list of events it is about to emit. A socket the service
  has closed and dropped emits nothing more. What a handler throws leaves through the
  library's emitter; for a connection error this is before the next attempt is
  scheduled, so that error is the last event. \<open>run_socket\<close> is the service after the
  events that did occur, \<open>handled\<close> their number.
\<close>

fun is_connect_error :: "SocketEvent \<Rightarrow> bool" where
  "is_connect_error (sock_connect_error msg) = True"
| "is_connect_error e = False"

fun run_socket :: "SocketEvent list \<Rightarrow> SocketService \<Rightarrow> SocketService" where
  "run_socket [] s = s"
| "run_socket (e # es) s =
     (if socket s = None then s
      else (case deliver e s of
              Done s' \<Rightarrow> run_socket es s'
            | Raised err s' \<Rightarrow> if is_connect_error e then s' else run_socket es s'))"

fun handled :: "SocketEvent list \<Rightarrow> SocketService \<Rightarrow> nat" where
  "handled [] s = 0"
| "handled (e # es) s =
     (if socket s = None then 0
      else (case deliver e s of
              Done s' \<Rightarrow> Suc (handled es s')
            | Raised err s' \<Rightarrow> if is_connect_error e then 1 else Suc (handled es s')))"

text \<open>The callbacks invoked after a walk over \<open>cbs\<close>: all up to and with the first that throws.\<close>

definition notified :: "Callback list \<Rightarrow> Callback list" where
  "notified cbs = takeWhile (\<lambda>cb. \<not> cb_throws cb) cbs @ take 1 (dropWhile (\<lambda>cb. \<not> cb_throws cb) cbs)"

definition calls_to :: "Callback \<Rightarrow> SocketService \<Rightarrow> EventData list" where
  "calls_to cb s = map snd (filter (\<lambda>c. fst c = cb) (calls s))"

text \<open>
  \<open>quiet\<close>: no listener of the event throws. \<open>set_like\<close>: the listeners of the event are
  pairwise different, as the elements of a Set are.
\<close>

definition quiet :: "EventName \<Rightarrow> SocketService \<Rightarrow> bool" where
  "quiet ev s = (case listeners s ev of None \<Rightarrow> True | Some cbs \<Rightarrow> list_all (\<lambda>cb. \<not> cb_throws cb) cbs)"

definition set_like :: "EventName \<Rightarrow> SocketService \<Rightarrow> bool" where
  "set_like ev s = (case listeners s ev of None \<Rightarrow> True | Some cbs \<Rightarrow> distinct cbs)"

section \<open>Example scenes\<close>

definition msg_hello :: Message where
  "msg_hello = \<lparr>character = ''bob'', content = Some ''hello'', recipient = ''alice'',
     mood = ''cheerful'', mood_emoji = '':)'', calculated_speaking_time = 4,
     end_conversation = False\<rparr>"

definition msg_pending :: Message where
  "msg_pending = \<lparr>character = ''alice'', content = None, recipient = ''bob'',
     mood = ''curious'', mood_emoji = ''?'', calculated_speaking_time = 0,
     end_conversation = False\<rparr>"

definition bob :: "CharacterAction \<Rightarrow> CharacterState" where
  "bob a = \<lparr>name = ''Bob'', color = ''#3366ff'', position = (96, 240),
     direction = dir_right, current_mood = ''cheerful'', action = a\<rparr>"

definition alice :: "CharacterAction \<Rightarrow> CharacterState" where
  "alice a = \<lparr>name = ''Alice'', color = ''#ff6633'', position = (288, 240),
     direction = dir_left, current_mood = ''curious'', action = a\<rparr>"

definition snapshot :: "CharacterAction \<Rightarrow> CharacterAction \<Rightarrow> Message list \<Rightarrow> SceneState" where
  "snapshot a b ms = \<lparr>scene_id = 1, characters = [(''bob'', bob a), (''alice'', alice b)],
     messages = ms, conversation_active = True, conversation_ended = False\<rparr>"

text \<open>The events whose snapshots reach \<open>updateState\<close>, in order.\<close>

fun snapshots_of :: "GameEvent list \<Rightarrow> SceneState list" where
  "snapshots_of [] = []"
| "snapshots_of (scene_state s # es) = s # snapshots_of es"
| "snapshots_of (e # es) = snapshots_of es"


text \<open>
  Bob idle, then Bob speaking, both pushed in Live mode: Bob's action has changed, so
  he bounces.
\<close>

definition bouncing :: Game where
  "bouncing =
     run [scene_state (snapshot idle idle []), scene_state (snapshot speaking idle [msg_hello])]
       initial_game"

text \<open>What a speech bubble takes from a character: where its sprite is, and its colour.\<close>

definition bubble_view :: "Character \<Rightarrow> (int \<times> int) \<times> string" where
  "bubble_view c = (sprite_pos (sprite c), char_color c)"

section \<open>Example services\<close>

text \<open>Two snapshot listeners, the first of which throws.\<close>

definition two_listeners :: SocketService where
  "two_listeners =
     addListener ev_scene_state (Callback 2 False)
       (addListener ev_scene_state (Callback 1 True) initial_service)"

text \<open>
  One listener subscribes, the service connects, a snapshot is pushed, and only then a
  second listener subscribes.
\<close>

definition late_subscriber :: SocketService where
  "late_subscriber =
     addListener ev_scene_state (Callback 11 False)
       (state_of (deliver (sock_scene_state (snapshot idle idle []))
          (connect (addListener ev_scene_state (Callback 10 False) initial_service))))"

text \<open>A service with one listener of connect_error, after \<open>connect()\<close>.\<close>

definition retrying :: "Callback \<Rightarrow> SocketService" where
  "retrying cb = connect (addListener ev_connect_error cb initial_service)"

section \<open>Outcomes\<close>

lemma state_of_map_outcome: "state_of (map_outcome f r) = f (state_of r)"
  by (cases r) simp_all

lemma raised_map_outcome: "raised (map_outcome f r) = raised r"
  by (cases r) simp_all

section \<open>Speech bubbles: what a render pass creates\<close>

lemma bubbleStep_other:
  "k \<noteq> fst e \<Longrightarrow> state_of (bubbleStep cs ms e bs) k = bs k"
  by (auto simp: bubbleStep_def createSpeechBubble_def Let_def split: option.splits)

lemma bubbleStep_not_speaking:
  "action (snd e) \<noteq> speaking \<Longrightarrow> bubbleStep cs ms e bs = Done bs"
  by (simp add: bubbleStep_def Let_def)

lemma bubbleLoop_absent:
  "bs k = None \<Longrightarrow> \<forall>e\<in>set es. fst e = k \<longrightarrow> action (snd e) \<noteq> speaking
     \<Longrightarrow> state_of (bubbleLoop cs ms es bs) k = None"
proof (induction es arbitrary: bs)
  case Nil
  then show ?case by simp
next
  case (Cons e es)
  have step: "state_of (bubbleStep cs ms e bs) k = None"
  proof (cases "fst e = k")
    case True
    with Cons.prems have "action (snd e) \<noteq> speaking" by simp
    then show ?thesis using Cons.prems(1) by (simp add: bubbleStep_not_speaking)
  next
    case False
    then show ?thesis using Cons.prems(1) by (simp add: bubbleStep_other)
  qed
  show ?case
  proof (cases "bubbleStep cs ms e bs")
    case (Done bs')
    with step have "bs' k = None" by simp
    with Cons.IH Cons.prems(2) Done show ?thesis by simp
  next
    case (Raised err bs')
    with step show ?thesis by simp
  qed
qed

lemma distinct_keys_same:
  "distinct (map fst es) \<Longrightarrow> (k, v) \<in> set es \<Longrightarrow> (k, v') \<in> set es \<Longrightarrow> v = v'"
  by (meson eq_key_imp_eq_value)

text \<open>
  Claim C9. After \<open>updateBubbles\<close> has run on a snapshot, whether it returned or threw,
  no active bubble is keyed by a character of that snapshot whose action is not
  \<open>speaking\<close>.
\<close>

theorem C9_no_effect_for_non_speakers:
  assumes "wellformed s" and "(k, v) \<in> set (characters s)" and "action v \<noteq> speaking"
  shows "state_of (updateBubbles cs s bs) k = None"
proof -
  have "\<forall>e\<in>set (characters s). fst e = k \<longrightarrow> action (snd e) \<noteq> speaking"
  proof
    fix e assume e: "e \<in> set (characters s)"
    show "fst e = k \<longrightarrow> action (snd e) \<noteq> speaking"
    proof
      assume "fst e = k"
      then have "(k, snd e) \<in> set (characters s)" using e by (metis prod.collapse)
      with assms(1,2) have "snd e = v" unfolding wellformed_def by (meson distinct_keys_same)
      with assms(3) show "action (snd e) \<noteq> speaking" by simp
    qed
  qed
  then show ?thesis
    unfolding updateBubbles_def clearBubbles_def by (intro bubbleLoop_absent) simp_all
qed


theorem C9_witness:
  "wellformed (snapshot speaking idle [msg_hello])
   \<and> (''alice'', alice idle) \<in> set (characters (snapshot speaking idle [msg_hello]))
   \<and> action (alice idle) \<noteq> speaking
   \<and> state_of (updateBubbles Map.empty (snapshot speaking idle [msg_hello]) Map.empty) ''alice'' = None"
proof -
  have h1: "wellformed (snapshot speaking idle [msg_hello])"
    by (simp add: wellformed_def snapshot_def)
  have h2: "(''alice'', alice idle) \<in> set (characters (snapshot speaking idle [msg_hello]))"
    by (simp add: snapshot_def)
  have h3: "action (alice idle) \<noteq> speaking"
    by (simp add: alice_def)
  show ?thesis
    using C9_no_effect_for_non_speakers [OF h1 h2 h3] h1 h2 h3 by simp
qed

lemma bubbleLoop_untouched:
  "bs k = None \<Longrightarrow> \<forall>e\<in>set es. fst e = k \<longrightarrow> (\<forall>b. state_of (bubbleStep cs ms e b) = b)
     \<Longrightarrow> state_of (bubbleLoop cs ms es bs) k = None"
proof (induction es arbitrary: bs)
  case Nil
  then show ?case by simp
next
  case (Cons e es)
  have step: "state_of (bubbleStep cs ms e bs) k = None"
  proof (cases "fst e = k")
    case True
    with Cons.prems show ?thesis by simp
  next
    case False
    then show ?thesis using Cons.prems(1) by (simp add: bubbleStep_other)
  qed
  show ?case
  proof (cases "bubbleStep cs ms e bs")
    case (Done bs')
    with step have "bs' k = None" by simp
    with Cons.IH Cons.prems(2) Done show ?thesis by simp
  next
    case (Raised err bs')
    with step show ?thesis by simp
  qed
qed

lemma bubbleStep_pending:
  "action v = speaking \<Longrightarrow> latestMessage k ms = Some m \<Longrightarrow> \<not> truthy (content m)
     \<Longrightarrow> bubbleStep cs ms (k, v) b = Done b"
  by (simp add: bubbleStep_def Let_def split: option.splits)

lemma bubbleStep_created:
  "state_of (bubbleStep cs ms e bs) k = Some b \<Longrightarrow>
     bs k = Some b \<or>
     (fst e = k \<and> action (snd e) = speaking \<and>
      (\<exists>m. latestMessage k ms = Some m \<and> truthy (content m) \<and> bubble_text b = the (content m)))"
  by (auto simp: bubbleStep_def createSpeechBubble_def Let_def split: option.splits if_splits)

lemma bubbleLoop_created:
  "state_of (bubbleLoop cs ms es bs) k = Some b \<Longrightarrow>
     bs k = Some b \<or>
     (\<exists>v m. (k, v) \<in> set es \<and> action v = speaking \<and>
            latestMessage k ms = Some m \<and> truthy (content m) \<and> bubble_text b = the (content m))"
proof (induction es arbitrary: bs)
  case Nil
  then show ?case by simp
next
  case (Cons e es)
  show ?case
  proof (cases "bubbleStep cs ms e bs")
    case (Done bs')
    with Cons.prems have "state_of (bubbleLoop cs ms es bs') k = Some b" by simp
    from Cons.IH [OF this] show ?thesis
    proof
      assume "bs' k = Some b"
      then have "state_of (bubbleStep cs ms e bs) k = Some b" using Done by simp
      from bubbleStep_created [OF this] show ?thesis
        by (metis list.set_intros(1) prod.collapse)
    next
      assume "\<exists>v m. (k, v) \<in> set es \<and> action v = speaking \<and>
            latestMessage k ms = Some m \<and> truthy (content m) \<and> bubble_text b = the (content m)"
      then show ?thesis by auto
    qed
  next
    case (Raised err bs')
    with Cons.prems have "state_of (bubbleStep cs ms e bs) k = Some b" by simp
    from bubbleStep_created [OF this] show ?thesis
      by (metis list.set_intros(1) prod.collapse)
  qed
qed

lemma bubbleLoop_completes:
  "\<forall>e\<in>set es. action (snd e) = speaking \<longrightarrow> latestMessage (fst e) ms \<noteq> None
     \<Longrightarrow> \<not> raised (bubbleLoop cs ms es bs)"
proof (induction es arbitrary: bs)
  case Nil
  then show ?case by simp
next
  case (Cons e es)
  then have "\<not> raised (bubbleStep cs ms e bs)"
    by (auto simp: bubbleStep_def Let_def split: option.splits)
  then obtain bs' where "bubbleStep cs ms e bs = Done bs'"
    by (cases "bubbleStep cs ms e bs") simp_all
  with Cons show ?case by simp
qed

text \<open>
  Claim C10. A speaking character whose latest own message has null or empty content:
  its turn of the loop returns normally and leaves the bubbles as they are, no bubble is
  keyed by it after the pass, the pass as a whole returns when every speaking character
  has a message, and whenever a pass leaves a bubble for a character, that character's
  latest message has non-empty content, which is the bubble's text.
\<close>

theorem C10_pending_turn_no_bubble:
  assumes "wellformed s" and "(k, v) \<in> set (characters s)" and "action v = speaking"
    and "latestMessage k (messages s) = Some m" and "\<not> truthy (content m)"
  shows "bubbleStep cs (messages s) (k, v) b = Done b
       \<and> state_of (updateBubbles cs s bs) k = None
       \<and> ((\<forall>e\<in>set (characters s). action (snd e) = speaking
              \<longrightarrow> latestMessage (fst e) (messages s) \<noteq> None)
            \<longrightarrow> \<not> raised (updateBubbles cs s bs))
       \<and> (\<forall>s' k' b'. state_of (updateBubbles cs s' bs) k' = Some b' \<longrightarrow>
             (\<exists>m'. latestMessage k' (messages s') = Some m' \<and> truthy (content m')
                   \<and> bubble_text b' = the (content m')))"
proof (intro conjI)
  show "bubbleStep cs (messages s) (k, v) b = Done b"
    using assms(3-5) by (rule bubbleStep_pending)
next
  have "\<forall>e\<in>set (characters s). fst e = k \<longrightarrow>
          (\<forall>b. state_of (bubbleStep cs (messages s) e b) = b)"
  proof (intro ballI impI allI)
    fix e b0 assume e: "e \<in> set (characters s)" and "fst e = k"
    then have "(k, snd e) \<in> set (characters s)" by (metis prod.collapse)
    with assms(1,2) have "snd e = v" unfolding wellformed_def by (meson distinct_keys_same)
    with \<open>fst e = k\<close> have "e = (k, v)" by (metis prod.collapse)
    then show "state_of (bubbleStep cs (messages s) e b0) = b0"
      using bubbleStep_pending [OF assms(3-5)] by simp
  qed
  then show "state_of (updateBubbles cs s bs) k = None"
    unfolding updateBubbles_def clearBubbles_def by (intro bubbleLoop_untouched) simp_all
next
  show "(\<forall>e\<in>set (characters s). action (snd e) = speaking
              \<longrightarrow> latestMessage (fst e) (messages s) \<noteq> None)
            \<longrightarrow> \<not> raised (updateBubbles cs s bs)"
    unfolding updateBubbles_def by (intro impI bubbleLoop_completes)
next
  show "\<forall>s' k' b'. state_of (updateBubbles cs s' bs) k' = Some b' \<longrightarrow>
             (\<exists>m'. latestMessage k' (messages s') = Some m' \<and> truthy (content m')
                   \<and> bubble_text b' = the (content m'))"
  proof (intro allI impI)
    fix s' k' b' assume "state_of (updateBubbles cs s' bs) k' = Some b'"
    then have "state_of (bubbleLoop cs (messages s') (characters s') Map.empty) k' = Some b'"
      by (simp add: updateBubbles_def clearBubbles_def)
    from bubbleLoop_created [OF this] show "\<exists>m'. latestMessage k' (messages s') = Some m' \<and> truthy (content m')
                   \<and> bubble_text b' = the (content m')" by auto
  qed
qed


theorem C10_witness:
  "wellformed (snapshot idle speaking [msg_hello, msg_pending])
   \<and> (''alice'', alice speaking) \<in> set (characters (snapshot idle speaking [msg_hello, msg_pending]))
   \<and> action (alice speaking) = speaking
   \<and> latestMessage ''alice'' (messages (snapshot idle speaking [msg_hello, msg_pending])) = Some msg_pending
   \<and> \<not> truthy (content msg_pending)
   \<and> bubbleStep Map.empty (messages (snapshot idle speaking [msg_hello, msg_pending]))
        (''alice'', alice speaking) Map.empty = Done Map.empty
   \<and> state_of (updateBubbles Map.empty (snapshot idle speaking [msg_hello, msg_pending]) Map.empty)
        ''alice'' = None"
proof -
  have h1: "wellformed (snapshot idle speaking [msg_hello, msg_pending])"
    by (simp add: wellformed_def snapshot_def)
  have h2: "(''alice'', alice speaking) \<in> set (characters (snapshot idle speaking [msg_hello, msg_pending]))"
    by (simp add: snapshot_def)
  have h3: "action (alice speaking) = speaking"
    by (simp add: alice_def)
  have h4: "latestMessage ''alice'' (messages (snapshot idle speaking [msg_hello, msg_pending])) = Some msg_pending"
    by (simp add: latestMessage_def snapshot_def msg_hello_def msg_pending_def)
  have h5: "\<not> truthy (content msg_pending)"
    by (simp add: msg_pending_def)
  show ?thesis
    using C10_pending_turn_no_bubble [OF h1 h2 h3 h4 h5, of Map.empty Map.empty Map.empty]
      h1 h2 h3 h4 h5 by simp
qed

lemma updateCharacters_known_aux:
  "k \<in> fst ` set es \<or> cs k \<noteq> None \<Longrightarrow> fold updateCharacter es cs k \<noteq> None"
proof (induction es arbitrary: cs)
  case Nil
  then show ?case by simp
next
  case (Cons e es)
  have "k \<in> fst ` set es \<or> updateCharacter e cs k \<noteq> None"
    using Cons.prems by (auto simp: updateCharacter_def Let_def)
  then have "fold updateCharacter es (updateCharacter e cs) k \<noteq> None"
    by (rule Cons.IH [where cs = "updateCharacter e cs"])
  then show ?case by simp
qed

lemma updateCharacters_known:
  "(k, v) \<in> set (characters s) \<Longrightarrow> updateCharacters s cs k \<noteq> None"
  unfolding updateCharacters_def by (rule updateCharacters_known_aux) force

lemma bubbleLoop_raises:
  "(k, v) \<in> set es \<Longrightarrow> action v = speaking \<Longrightarrow> cs k \<noteq> None \<Longrightarrow> latestMessage k ms = None
     \<Longrightarrow> raised (bubbleLoop cs ms es bs)"
proof (induction es arbitrary: bs)
  case Nil
  then show ?case by simp
next
  case (Cons e es)
  show ?case
  proof (cases "bubbleStep cs ms e bs")
    case (Raised err bs')
    then show ?thesis by simp
  next
    case (Done bs')
    have "e \<noteq> (k, v)"
    proof
      assume "e = (k, v)"
      with Cons.prems have "bubbleStep cs ms e bs = Raised TypeError bs"
        by (auto simp: bubbleStep_def Let_def)
      with Done show False by simp
    qed
    with Cons.prems(1) have "(k, v) \<in> set es" by auto
    from Cons.IH [OF this Cons.prems(2-4)] Done show ?thesis by simp
  qed
qed

lemma speaking_without_message_throws:
  assumes "(k, v) \<in> set (characters s)" and "action v = speaking"
    and "latestMessage k (messages s) = None" and "\<not> isInHistoryMode g"
  shows "raised (updateState s g)"
proof -
  have "raised (updateBubbles (updateCharacters s (chars g)) s (activeBubbles g))"
    unfolding updateBubbles_def
    using assms(1-3) updateCharacters_known [OF assms(1)] by (intro bubbleLoop_raises) auto
  then show ?thesis using assms(4)
    by (cases "updateBubbles (updateCharacters s (chars g)) s (activeBubbles g)")
       (simp_all add: updateState_def Let_def)
qed

text \<open>
  Claim C4 fails on the code. Bob is speaking and the message log is empty; applied in
  Live mode to the initial game, the snapshot makes \<open>updateState\<close> throw: the character
  is known after \<open>updateCharacters\<close>, \<open>message\<close> is \<open>undefined\<close>, and
  \<open>message.content\<close> raises a TypeError, which ends \<open>updateBubbles\<close>.
\<close>

theorem C4_malformed_snapshot_throws:
  "raised (updateState (snapshot speaking idle []) initial_game)
   \<and> updateBubbles (updateCharacters (snapshot speaking idle []) Map.empty)
         (snapshot speaking idle []) Map.empty = Raised TypeError Map.empty"
  by (simp add: updateState_def initial_game_def snapshot_def bob_def alice_def Let_def
      updateBubbles_def bubbleStep_def latestMessage_def updateCharacters_def
      updateCharacter_def clearBubbles_def)

section \<open>The current snapshot\<close>

lemma updateState_current: "currentState (state_of (updateState s g)) = Some s"
  by (simp add: updateState_def on_sceneStateUpdate_def Let_def split: outcome.splits)

lemma historyModeChange_current:
  "currentState (state_of (historyModeChange b g)) = currentState g"
  by (simp add: historyModeChange_def Let_def split: outcome.splits option.splits)

lemma ui_listener_fields:
  "currentState (UIControlsManager_onHistoryModeChange g) = currentState g"
  "isInHistoryMode (UIControlsManager_onHistoryModeChange g) = isInHistoryMode g"
  "chars (UIControlsManager_onHistoryModeChange g) = chars g"
  "activeBubbles (UIControlsManager_onHistoryModeChange g) = activeBubbles g"
  "historyMode (UIControlsManager_onHistoryModeChange g) = historyMode g"
  "currentHistoryIndex (UIControlsManager_onHistoryModeChange g) = currentHistoryIndex g"
  "conversationHistory (UIControlsManager_onHistoryModeChange g) = conversationHistory g"
  "navFeedback (UIControlsManager_onHistoryModeChange g) = navFeedback g"
  "invalidIndexWarnings (UIControlsManager_onHistoryModeChange g) = invalidIndexWarnings g"
  by (simp_all add: UIControlsManager_onHistoryModeChange_def split: option.splits)

lemma emit_historyModeChange_current:
  "currentState (state_of (emit_historyModeChange b g)) = currentState g"
  by (simp add: emit_historyModeChange_def CharacterManager_handleHistoryModeChange_def
      historyModeChange_current ui_listener_fields)

lemma StateManager_navigateHistory_current:
  "currentState (state_of (StateManager_navigateHistory i g)) = currentState g"
  by (simp add: StateManager_navigateHistory_def split: outcome.splits option.splits)

lemma invalidFeedback_current: "currentState (invalidFeedback d g) = currentState g"
  by (simp add: invalidFeedback_def split: option.splits)

lemma handle_current:
  "currentState (state_of (handle e g)) = (case e of scene_state s \<Rightarrow> Some s | _ \<Rightarrow> currentState g)"
  by (cases e)
     (simp_all add: updateState_current handleEnterHistoryMode_def handleExitHistoryMode_def
        emit_historyModeChange_current navigateHistory_def Let_def
        StateManager_navigateHistory_current invalidFeedback_current)

lemma run_current:
  "currentState (run es g) =
     (if snapshots_of es = [] then currentState g else Some (last (snapshots_of es)))"
proof (induction es arbitrary: g)
  case Nil
  then show ?case by (simp add: run_def)
next
  case (Cons e es)
  have unfold: "run (e # es) g = run es (state_of (handle e g))"
    by (simp add: run_def)
  show ?case
    unfolding unfold Cons.IH
    by (cases e) (simp_all add: handle_current del: handle.simps)
qed

text \<open>
  Claim C1. \<open>updateState\<close> stores the snapshot it is given, in Live and in History
  mode and whether or not the render pass throws; after any sequence of events that
  delivers at least one snapshot, with mode toggles and navigation in between, the
  current snapshot is the last one delivered.
\<close>

theorem C1_last_write_wins:
  "currentState (state_of (updateState s g)) = Some s
   \<and> (snapshots_of es \<noteq> [] \<longrightarrow> currentState (run es g) = Some (last (snapshots_of es)))"
  by (simp add: run_current updateState_current)

theorem C1_witness:
  "snapshots_of [scene_state (snapshot idle idle []), enterHistoryMode,
                 scene_state (snapshot speaking idle [msg_hello]), historyNavigateTo 1,
                 exitHistoryMode] \<noteq> []
   \<and> currentState (run [scene_state (snapshot idle idle []), enterHistoryMode,
                 scene_state (snapshot speaking idle [msg_hello]), historyNavigateTo 1,
                 exitHistoryMode] initial_game) = Some (snapshot speaking idle [msg_hello])"
proof -
  have h: "snapshots_of [scene_state (snapshot idle idle []), enterHistoryMode,
                 scene_state (snapshot speaking idle [msg_hello]), historyNavigateTo 1,
                 exitHistoryMode] \<noteq> []" by simp
  show ?thesis
    using C1_last_write_wins [where es = "[scene_state (snapshot idle idle []), enterHistoryMode,
                 scene_state (snapshot speaking idle [msg_hello]), historyNavigateTo 1,
                 exitHistoryMode]" and g = initial_game] h by simp
qed

section \<open>History cursor\<close>





lemma run_append: "run (es @ es') g = run es' (run es g)"
  by (simp add: run_def)



















section \<open>Leaving History mode renders the current snapshot\<close>

lemma updateCharacter_view:
  "map_option bubble_view (updateCharacter e cs (fst e)) = Some (position (snd e), color (snd e))"
  by (simp add: updateCharacter_def updateCharacterState_def createThinkingSprite_def
      createBounceTween_def bubble_view_def Let_def split: option.splits)

lemma updateCharacter_other: "k \<noteq> fst e \<Longrightarrow> updateCharacter e cs k = cs k"
  by (simp add: updateCharacter_def Let_def)

lemma fold_updateCharacter_view:
  "k \<in> fst ` set es \<Longrightarrow>
     map_option bubble_view (fold updateCharacter es cs k) =
     map_option bubble_view (fold updateCharacter es cs' k)"
proof (induction es rule: rev_induct)
  case Nil
  then show ?case by simp
next
  case (snoc e es)
  show ?case
  proof (cases "k = fst e")
    case True
    then show ?thesis by (simp add: updateCharacter_view)
  next
    case False
    with snoc.prems have "k \<in> fst ` set es" by auto
    with snoc.IH False show ?thesis by (simp add: updateCharacter_other)
  qed
qed

lemma bubbleStep_cong:
  assumes "map_option bubble_view (cs (fst e)) = map_option bubble_view (cs' (fst e))"
  shows "bubbleStep cs ms e bs = bubbleStep cs' ms e bs"
proof (cases "cs (fst e)")
  case None
  with assms have "cs' (fst e) = None" by simp
  with None show ?thesis by (simp add: bubbleStep_def Let_def)
next
  case (Some c)
  with assms obtain c' where c': "cs' (fst e) = Some c'" and "bubble_view c = bubble_view c'"
    by (cases "cs' (fst e)") auto
  then have "sprite_pos (sprite c) = sprite_pos (sprite c')" and "char_color c = char_color c'"
    by (simp_all add: bubble_view_def)
  with Some c' show ?thesis
    by (simp add: bubbleStep_def createSpeechBubble_def Let_def split: option.splits)
qed

lemma bubbleLoop_cong:
  "\<forall>k\<in>fst ` set es. map_option bubble_view (cs k) = map_option bubble_view (cs' k)
     \<Longrightarrow> bubbleLoop cs ms es bs = bubbleLoop cs' ms es bs"
proof (induction es arbitrary: bs)
  case Nil
  then show ?case by simp
next
  case (Cons e es)
  then have "bubbleStep cs ms e bs = bubbleStep cs' ms e bs"
    by (intro bubbleStep_cong) simp
  with Cons show ?case by (simp split: outcome.splits)
qed

lemma updateBubbles_after_updateCharacters:
  "updateBubbles (updateCharacters s cs) s bs = updateBubbles (updateCharacters s cs') s bs'"
  unfolding updateBubbles_def updateCharacters_def clearBubbles_def
  by (intro bubbleLoop_cong ballI fold_updateCharacter_view)

lemma enter_fields:
  "currentState (state_of (handleEnterHistoryMode g)) = currentState g
   \<and> chars (state_of (handleEnterHistoryMode g)) = clearCharactersAnimations (chars g)"
  by (simp add: handleEnterHistoryMode_def emit_historyModeChange_def
      CharacterManager_handleHistoryModeChange_def historyModeChange_def Let_def
      ui_listener_fields split: option.splits outcome.splits)

lemma exit_render:
  assumes "currentState g = Some S"
  shows "currentState (state_of (handleExitHistoryMode g)) = Some S"
    and "\<not> isInHistoryMode (state_of (handleExitHistoryMode g))"
    and "\<not> historyMode (state_of (handleExitHistoryMode g))"
    and "chars (state_of (handleExitHistoryMode g)) = updateCharacters S (chars g)"
    and "map_outcome activeBubbles (handleExitHistoryMode g) =
           updateBubbles (updateCharacters S (chars g)) S (activeBubbles g)"
  using assms
  by (simp_all add: handleExitHistoryMode_def emit_historyModeChange_def
      CharacterManager_handleHistoryModeChange_def historyModeChange_def Let_def
      ui_listener_fields split: option.splits outcome.splits)

lemma live_render:
  assumes "\<not> isInHistoryMode g"
  shows "chars (state_of (updateState S g)) = updateCharacters S (chars g)"
    and "map_outcome activeBubbles (updateState S g) =
           updateBubbles (updateCharacters S (chars g)) S (activeBubbles g)"
  using assms
  by (simp_all add: updateState_def on_sceneStateUpdate_def Let_def split: outcome.splits)

lemma updateCharacterState_fields:
  "char_state (updateCharacterState c st) = st"
  "char_color (updateCharacterState c st) = char_color c"
  "sprite_pos (sprite (updateCharacterState c st)) = sprite_pos (sprite c)"
  "tint (sprite (updateCharacterState c st)) = (if action st = idle then INACTIVE_TINT else ACTIVE_TINT)"
  "(thinkingSprite (updateCharacterState c st) \<noteq> None) = startsWith_thinking (action st)"
  by (simp_all add: updateCharacterState_def createThinkingSprite_def createBounceTween_def Let_def)

lemma updateCharacter_entry:
  "\<exists>c. updateCharacter (k, v) cs k = Some c \<and> char_state c = v \<and> char_color c = color v
       \<and> sprite_pos (sprite c) = position v
       \<and> tint (sprite c) = (if action v = idle then INACTIVE_TINT else ACTIVE_TINT)
       \<and> (thinkingSprite c \<noteq> None \<longleftrightarrow> startsWith_thinking (action v))"
  by (cases "cs k")
     (simp_all add: updateCharacter_def updateCharacterState_fields Let_def del: not_None_eq)

lemma updateCharacters_entry:
  assumes "wellformed S" and "(k, v) \<in> set (characters S)"
  shows "\<exists>c. updateCharacters S cs k = Some c \<and> char_state c = v \<and> char_color c = color v
       \<and> sprite_pos (sprite c) = position v
       \<and> tint (sprite c) = (if action v = idle then INACTIVE_TINT else ACTIVE_TINT)
       \<and> (thinkingSprite c \<noteq> None \<longleftrightarrow> startsWith_thinking (action v))"
proof -
  have "distinct (map fst es) \<Longrightarrow> (k, v) \<in> set es \<Longrightarrow>
      \<exists>c. fold updateCharacter es cs k = Some c \<and> char_state c = v \<and> char_color c = color v
       \<and> sprite_pos (sprite c) = position v
       \<and> tint (sprite c) = (if action v = idle then INACTIVE_TINT else ACTIVE_TINT)
       \<and> (thinkingSprite c \<noteq> None \<longleftrightarrow> startsWith_thinking (action v))" for es
  proof (induction es rule: rev_induct)
    case Nil
    then show ?case by simp
  next
    case (snoc e es)
    show ?case
    proof (cases "e = (k, v)")
      case True
      then show ?thesis using updateCharacter_entry [of k v "fold updateCharacter es cs"] by simp
    next
      case False
      with snoc.prems have mem: "(k, v) \<in> set es" by auto
      then have "k \<in> fst ` set es" by force
      with snoc.prems(1) have "fst e \<noteq> k" by auto
      moreover from snoc.prems(1) have "distinct (map fst es)" by simp
      ultimately show ?thesis using snoc.IH mem by (simp add: updateCharacter_other)
    qed
  qed
  with assms show ?thesis by (simp add: wellformed_def updateCharacters_def)
qed

lemma updateState_mode: "isInHistoryMode (state_of (updateState s g)) = isInHistoryMode g"
  by (simp add: updateState_def on_sceneStateUpdate_def Let_def split: outcome.splits)

lemma fold_updateCharacter_absent:
  "k \<notin> fst ` set es \<Longrightarrow> fold updateCharacter es cs k = cs k"
  by (induction es arbitrary: cs) (auto simp: updateCharacter_other)

lemma updateCharacter_local:
  "cs k = cs' k \<Longrightarrow> updateCharacter (k, v) cs k = updateCharacter (k, v) cs' k"
  by (simp add: updateCharacter_def Let_def)

lemma fold_updateCharacter_key:
  "distinct (map fst es) \<Longrightarrow> (k, v) \<in> set es \<Longrightarrow>
     fold updateCharacter es cs k = updateCharacter (k, v) cs k"
proof (induction es arbitrary: cs)
  case Nil
  then show ?case by simp
next
  case (Cons e es)
  show ?case
  proof (cases "e = (k, v)")
    case True
    with Cons.prems(1) have "k \<notin> fst ` set es" by force
    with True show ?thesis by (simp add: fold_updateCharacter_absent)
  next
    case False
    with Cons.prems have mem: "(k, v) \<in> set es" and d: "distinct (map fst es)" by auto
    then have "k \<in> set (map fst es)" by force
    moreover from Cons.prems(1) have "fst e \<notin> set (map fst es)" by simp
    ultimately have ne: "k \<noteq> fst e" by blast
    then have "updateCharacter (k, v) (updateCharacter e cs) k = updateCharacter (k, v) cs k"
      by (intro updateCharacter_local) (simp add: updateCharacter_other)
    with Cons.IH [OF d mem, of "updateCharacter e cs"] show ?thesis by simp
  qed
qed

lemma updateCharacter_tween:
  "map_option activeTween (updateCharacter (k, v) cs k) =
     Some (if action v = idle then None
           else (case cs k of
                   None \<Rightarrow> None
                 | Some c \<Rightarrow> if action v \<noteq> action (char_state c) then Some Running
                             else map_option (\<lambda>t. Stopped) (activeTween c)))"
  by (cases "cs k")
     (simp_all add: updateCharacter_def updateCharacterState_def createThinkingSprite_def
        createBounceTween_def Let_def)


lemma updateCharacterState_more_fields:
  "anim (sprite (updateCharacterState c st)) = anim (sprite c)"
  "texture (sprite (updateCharacterState c st)) = texture (sprite c)"
  "char_id (updateCharacterState c st) = char_id c"
  by (simp_all add: updateCharacterState_def createThinkingSprite_def createBounceTween_def Let_def)

lemma updateCharacter_rendered:
  assumes "updateCharacter (k, v) cs k = Some c"
  shows "char_state c = v" and "char_color c = color v"
    and "sprite_pos (sprite c) = position v"
    and "anim (sprite c) = Some (k @ ''_idle_'' @ direction_name (direction v))"
    and "tint (sprite c) = (if action v = idle then INACTIVE_TINT else ACTIVE_TINT)"
    and "(thinkingSprite c = None) = (\<not> startsWith_thinking (action v))"
proof -
  have "\<exists>c. updateCharacter (k, v) cs k = Some c \<and> char_state c = v \<and> char_color c = color v
       \<and> sprite_pos (sprite c) = position v
       \<and> anim (sprite c) = Some (k @ ''_idle_'' @ direction_name (direction v))
       \<and> tint (sprite c) = (if action v = idle then INACTIVE_TINT else ACTIVE_TINT)
       \<and> (thinkingSprite c \<noteq> None \<longleftrightarrow> startsWith_thinking (action v))"
    by (cases "cs k")
       (simp_all add: updateCharacter_def updateCharacterState_fields
          updateCharacterState_more_fields Let_def del: not_None_eq)
  with assms show "char_state c = v" and "char_color c = color v"
    and "sprite_pos (sprite c) = position v"
    and "anim (sprite c) = Some (k @ ''_idle_'' @ direction_name (direction v))"
    and "tint (sprite c) = (if action v = idle then INACTIVE_TINT else ACTIVE_TINT)"
    and "(thinkingSprite c = None) = (\<not> startsWith_thinking (action v))"
    by auto
qed


lemma updateCharacter_kept:
  assumes "cs k = Some x" and "updateCharacter (k, v) cs k = Some c"
  shows "char_id c = char_id x" and "texture (sprite c) = texture (sprite x)"
  using assms
  by (auto simp: updateCharacter_def updateCharacterState_more_fields Let_def)



lemma clear_fields:
  "char_id (clearCharacterAnimations c) = char_id c"
  "char_state (clearCharacterAnimations c) = char_state c"
  "sprite (clearCharacterAnimations c) = sprite c"
  "char_color (clearCharacterAnimations c) = char_color c"
  "activeTween (clearCharacterAnimations c) = None"
  "thinkingSprite (clearCharacterAnimations c) = None"
  by (simp_all add: clearCharacterAnimations_def)

lemma rerender_cleared:
  assumes c0: "updateCharacter (k, v) cs k = Some c0"
    and cleared: "cs' k = Some (clearCharacterAnimations c0)"
  shows "\<exists>c. updateCharacter (k, v) cs' k = Some c \<and> activeTween c = None
       \<and> c\<lparr>activeTween := activeTween c0, thinkingSprite := thinkingSprite c0\<rparr> = c0
       \<and> (thinkingSprite c = None) = (thinkingSprite c0 = None)"
proof -
  obtain c where c: "updateCharacter (k, v) cs' k = Some c"
    by (simp add: updateCharacter_def Let_def)
  note r0 = updateCharacter_rendered [OF c0]
  note r = updateCharacter_rendered [OF c]
  note kept = updateCharacter_kept [OF cleared c]
  have "map_option activeTween (updateCharacter (k, v) cs' k) = Some None"
    by (simp add: updateCharacter_tween cleared clear_fields r0(1))
  then have tween: "activeTween c = None" by (simp add: c)
  have sprite_eq: "sprite c = sprite c0"
  proof (rule Sprite.equality)
    show "sprite_pos (sprite c) = sprite_pos (sprite c0)" by (simp only: r(3) r0(3))
    show "texture (sprite c) = texture (sprite c0)" by (simp only: kept(2) clear_fields)
    show "anim (sprite c) = anim (sprite c0)" by (simp only: r(4) r0(4))
    show "tint (sprite c) = tint (sprite c0)" by (simp only: r(5) r0(5))
    show "Sprite.more (sprite c) = Sprite.more (sprite c0)" by simp
  qed
  have whole: "c\<lparr>activeTween := activeTween c0, thinkingSprite := thinkingSprite c0\<rparr> = c0"
  proof (rule Character.equality)
    show "char_id (c\<lparr>activeTween := activeTween c0, thinkingSprite := thinkingSprite c0\<rparr>) = char_id c0"
      by (simp add: kept(1) clear_fields)
    show "char_state (c\<lparr>activeTween := activeTween c0, thinkingSprite := thinkingSprite c0\<rparr>) = char_state c0"
      by (simp add: r(1) r0(1))
    show "sprite (c\<lparr>activeTween := activeTween c0, thinkingSprite := thinkingSprite c0\<rparr>) = sprite c0"
      by (simp add: sprite_eq)
    show "activeTween (c\<lparr>activeTween := activeTween c0, thinkingSprite := thinkingSprite c0\<rparr>) = activeTween c0"
      by simp
    show "thinkingSprite (c\<lparr>activeTween := activeTween c0, thinkingSprite := thinkingSprite c0\<rparr>) = thinkingSprite c0"
      by simp
    show "char_color (c\<lparr>activeTween := activeTween c0, thinkingSprite := thinkingSprite c0\<rparr>) = char_color c0"
      by (simp add: r(2) r0(2))
    show "Character.more (c\<lparr>activeTween := activeTween c0, thinkingSprite := thinkingSprite c0\<rparr>) = Character.more c0"
      by simp
  qed
  have think: "(thinkingSprite c = None) = (thinkingSprite c0 = None)"
    by (simp only: r(6) r0(6))
  show ?thesis
    by (intro exI [of _ c] conjI c tween whole think)
qed

lemma clearCharactersAnimations_at:
  "cs k = Some c \<Longrightarrow> clearCharactersAnimations cs k = Some (clearCharacterAnimations c)"
  by (simp add: clearCharactersAnimations_def)

lemma round_trip_character:
  assumes cur: "currentState g = Some S" and live: "\<not> isInHistoryMode g0"
    and applied: "g = state_of (updateState S g0)"
    and wf: "wellformed S" and mem: "(k, v) \<in> set (characters S)"
  shows "\<exists>c0 c. chars g k = Some c0
       \<and> chars (state_of (handleExitHistoryMode (state_of (handleEnterHistoryMode g)))) k = Some c
       \<and> activeTween c = None
       \<and> c\<lparr>activeTween := activeTween c0, thinkingSprite := thinkingSprite c0\<rparr> = c0
       \<and> (thinkingSprite c = None) = (thinkingSprite c0 = None)"
proof -
  let ?g1 = "state_of (handleEnterHistoryMode g)"
  have d: "distinct (map fst (characters S))" using wf by (simp add: wellformed_def)
  have "chars g = updateCharacters S (chars g0)"
    unfolding applied by (rule live_render(1) [OF live])
  then have before: "chars g k = updateCharacter (k, v) (chars g0) k"
    by (simp add: updateCharacters_def fold_updateCharacter_key [OF d mem])
  obtain c0 where c0: "updateCharacter (k, v) (chars g0) k = Some c0"
    by (simp add: updateCharacter_def Let_def)
  have cur1: "currentState ?g1 = Some S" using cur by (simp add: enter_fields)
  have "chars (state_of (handleExitHistoryMode ?g1))
          = updateCharacters S (clearCharactersAnimations (chars g))"
    by (simp add: exit_render(4) [OF cur1] enter_fields)
  then have after: "chars (state_of (handleExitHistoryMode ?g1)) k
          = updateCharacter (k, v) (clearCharactersAnimations (chars g)) k"
    by (simp add: updateCharacters_def fold_updateCharacter_key [OF d mem])
  have "clearCharactersAnimations (chars g) k = Some (clearCharacterAnimations c0)"
    by (rule clearCharactersAnimations_at) (simp add: before c0)
  from rerender_cleared [where cs' = "clearCharactersAnimations (chars g)", OF c0 this]
  obtain c where c: "updateCharacter (k, v) (clearCharactersAnimations (chars g)) k = Some c"
    and t: "activeTween c = None"
    and w: "c\<lparr>activeTween := activeTween c0, thinkingSprite := thinkingSprite c0\<rparr> = c0"
    and th: "(thinkingSprite c = None) = (thinkingSprite c0 = None)"
    by (elim exE conjE)
  have b: "chars g k = Some c0" by (simp only: before c0)
  have a: "chars (state_of (handleExitHistoryMode ?g1)) k = Some c" by (simp only: after c)
  show ?thesis
    by (intro exI [of _ c0] exI [of _ c] conjI b a t w th)
qed

lemma bouncing_eval:
  "bouncing = state_of (updateState (snapshot speaking idle [msg_hello])
                 (state_of (updateState (snapshot idle idle []) initial_game)))"
  "\<not> isInHistoryMode (state_of (updateState (snapshot idle idle []) initial_game))"
  "currentState bouncing = Some (snapshot speaking idle [msg_hello])"
  "wellformed (snapshot speaking idle [msg_hello])"
  "(''bob'', bob speaking) \<in> set (characters (snapshot speaking idle [msg_hello]))"
  by (simp_all add: bouncing_def run_def updateState_current updateState_mode initial_game_def
      wellformed_def snapshot_def)

lemma bouncing_bob:
  "map_option activeTween (chars bouncing ''bob'') = Some (Some Running)"
proof -
  let ?A = "snapshot idle idle []" and ?B = "snapshot speaking idle [msg_hello]"
  let ?cs = "chars (state_of (updateState ?A initial_game))"
  have dA: "distinct (map fst (characters ?A))" and mA: "(''bob'', bob idle) \<in> set (characters ?A)"
    and dB: "distinct (map fst (characters ?B))" and mB: "(''bob'', bob speaking) \<in> set (characters ?B)"
    by (simp_all add: snapshot_def)
  have "?cs = updateCharacters ?A (chars initial_game)"
    by (rule live_render(1)) (simp add: initial_game_def)
  then have "?cs ''bob'' = updateCharacter (''bob'', bob idle) (chars initial_game) ''bob''"
    by (simp add: updateCharacters_def fold_updateCharacter_key [OF dA mA])
  then obtain c where c: "?cs ''bob'' = Some c"
    and cc: "updateCharacter (''bob'', bob idle) (chars initial_game) ''bob'' = Some c"
    by (simp add: updateCharacter_def Let_def)
  have st: "char_state c = bob idle" by (rule updateCharacter_rendered(1) [OF cc])
  have "chars bouncing = updateCharacters ?B ?cs"
    unfolding bouncing_eval(1) by (rule live_render(1) [OF bouncing_eval(2)])
  then have "chars bouncing ''bob'' = updateCharacter (''bob'', bob speaking) ?cs ''bob''"
    by (simp add: updateCharacters_def fold_updateCharacter_key [OF dB mB])
  then show ?thesis
    by (simp add: updateCharacter_tween c st bob_def)
qed

text \<open>
  Claim C6, amended. Let \<open>S\<close> be the current snapshot. Entering History and leaving it
  at once ends in Live mode with \<open>S\<close> still current, and the leaving handler runs the
  Live render pass on \<open>S\<close>. The speech bubbles, and whether the pass throws, are those
  of \<open>updateState S\<close> in Live mode from any game, and the bubbles shown before entering
  are shown again. Every character of \<open>S\<close> carries the state, colour, position, tint and
  thinking indicator \<open>S\<close> gives it, and is the character shown before entering in
  everything but two fields: its bounce tween is gone, since entering History stops it
  and the pass starts one only when the action changes, and its thinking indicator,
  present exactly when it was, is a new sprite.
\<close>

theorem C6_toggle_round_trip:
  assumes "currentState g = Some S"
  shows
    "currentState (state_of (handleExitHistoryMode (state_of (handleEnterHistoryMode g)))) = Some S
     \<and> \<not> isInHistoryMode (state_of (handleExitHistoryMode (state_of (handleEnterHistoryMode g))))
     \<and> \<not> historyMode (state_of (handleExitHistoryMode (state_of (handleEnterHistoryMode g))))
     \<and> (\<forall>g0. \<not> isInHistoryMode g0 \<longrightarrow>
           map_outcome activeBubbles (handleExitHistoryMode (state_of (handleEnterHistoryMode g)))
             = map_outcome activeBubbles (updateState S g0)
           \<and> (chars g0 = chars (state_of (handleEnterHistoryMode g)) \<longrightarrow>
                chars (state_of (handleExitHistoryMode (state_of (handleEnterHistoryMode g))))
                  = chars (state_of (updateState S g0)))
           \<and> (g = state_of (updateState S g0) \<longrightarrow>
                activeBubbles (state_of (handleExitHistoryMode (state_of (handleEnterHistoryMode g))))
                  = activeBubbles g))
     \<and> (\<forall>k v. wellformed S \<longrightarrow> (k, v) \<in> set (characters S) \<longrightarrow>
           (\<exists>c. chars (state_of (handleExitHistoryMode (state_of (handleEnterHistoryMode g)))) k = Some c
              \<and> char_state c = v \<and> char_color c = color v \<and> sprite_pos (sprite c) = position v
              \<and> tint (sprite c) = (if action v = idle then INACTIVE_TINT else ACTIVE_TINT)
              \<and> (thinkingSprite c \<noteq> None \<longleftrightarrow> startsWith_thinking (action v))))
     \<and> (\<forall>g0 k v. \<not> isInHistoryMode g0 \<longrightarrow> g = state_of (updateState S g0)
           \<longrightarrow> wellformed S \<longrightarrow> (k, v) \<in> set (characters S) \<longrightarrow>
           (\<exists>c0 c. chars g k = Some c0
              \<and> chars (state_of (handleExitHistoryMode (state_of (handleEnterHistoryMode g)))) k = Some c
              \<and> activeTween c = None
              \<and> c\<lparr>activeTween := activeTween c0, thinkingSprite := thinkingSprite c0\<rparr> = c0
              \<and> (thinkingSprite c = None) = (thinkingSprite c0 = None)))"
proof -
  let ?g1 = "state_of (handleEnterHistoryMode g)"
  let ?r = "handleExitHistoryMode ?g1"
  have cur: "currentState ?g1 = Some S"
    using assms by (simp add: enter_fields)
  note ex = exit_render [OF cur]
  have bub: "map_outcome activeBubbles ?r = map_outcome activeBubbles (updateState S g0)"
    if "\<not> isInHistoryMode g0" for g0
    unfolding ex(5) live_render(2) [OF that]
    by (rule updateBubbles_after_updateCharacters)
  have chr: "chars (state_of ?r) = chars (state_of (updateState S g0))"
    if "\<not> isInHistoryMode g0" and "chars g0 = chars ?g1" for g0
    using that by (simp add: ex(4) live_render(1))
  have rest: "activeBubbles (state_of ?r) = activeBubbles g"
    if "\<not> isInHistoryMode g0" and "g = state_of (updateState S g0)" for g0
  proof -
    have "activeBubbles (state_of ?r) = state_of (map_outcome activeBubbles ?r)"
      by (simp add: state_of_map_outcome)
    also have "\<dots> = state_of (map_outcome activeBubbles (updateState S g0))"
      by (simp only: bub [OF that(1)])
    also have "\<dots> = activeBubbles g"
      by (simp add: state_of_map_outcome that(2))
    finally show ?thesis .
  qed
  have ent: "\<exists>c. chars (state_of ?r) k = Some c
              \<and> char_state c = v \<and> char_color c = color v \<and> sprite_pos (sprite c) = position v
              \<and> tint (sprite c) = (if action v = idle then INACTIVE_TINT else ACTIVE_TINT)
              \<and> (thinkingSprite c \<noteq> None \<longleftrightarrow> startsWith_thinking (action v))"
    if "wellformed S" and "(k, v) \<in> set (characters S)" for k v
    unfolding ex(4) using that by (rule updateCharacters_entry)
  have trip: "\<exists>c0 c. chars g k = Some c0 \<and> chars (state_of ?r) k = Some c
              \<and> activeTween c = None
              \<and> c\<lparr>activeTween := activeTween c0, thinkingSprite := thinkingSprite c0\<rparr> = c0
              \<and> (thinkingSprite c = None) = (thinkingSprite c0 = None)"
    if "\<not> isInHistoryMode g0" and "g = state_of (updateState S g0)"
      and "wellformed S" and "(k, v) \<in> set (characters S)" for g0 k v
    using assms that by (rule round_trip_character)
  show ?thesis
    apply (intro conjI allI impI)
    subgoal by (rule ex(1))
    subgoal by (rule ex(2))
    subgoal by (rule ex(3))
    subgoal by (rule bub)
    subgoal by (rule chr)
    subgoal by (rule rest)
    subgoal by (rule ent)
    subgoal by (rule trip)
    done
qed

theorem C6_witness:
  "currentState bouncing = Some (snapshot speaking idle [msg_hello])
   \<and> currentState (state_of (handleExitHistoryMode (state_of (handleEnterHistoryMode bouncing))))
     = Some (snapshot speaking idle [msg_hello])
   \<and> activeBubbles (state_of (handleExitHistoryMode (state_of (handleEnterHistoryMode bouncing))))
     = activeBubbles bouncing"
proof -
  note t = C6_toggle_round_trip [OF bouncing_eval(3)]
  note restored = t [THEN conjunct2, THEN conjunct2, THEN conjunct2, THEN conjunct1,
      THEN spec, of "state_of (updateState (snapshot idle idle []) initial_game)",
      THEN mp, OF bouncing_eval(2), THEN conjunct2, THEN conjunct2, THEN mp, OF bouncing_eval(1)]
  show ?thesis
    by (intro conjI bouncing_eval(3) t [THEN conjunct1] restored)
qed

text \<open>
  Claim C6 as stated fails. Bob was idle and is speaking in the current snapshot, so
  Live mode shows him bouncing; after entering and leaving History his tween is gone,
  with the same snapshot current.
\<close>

theorem C6_counterexample:
  "currentState bouncing = Some (snapshot speaking idle [msg_hello])
   \<and> map_option activeTween (chars bouncing ''bob'') = Some (Some Running)
   \<and> map_option activeTween
        (chars (state_of (handleExitHistoryMode (state_of (handleEnterHistoryMode bouncing)))) ''bob'')
       = Some None"
proof -
  from round_trip_character [OF bouncing_eval(3,2,1,4,5)]
  obtain c where
    "chars (state_of (handleExitHistoryMode (state_of (handleEnterHistoryMode bouncing)))) ''bob'' = Some c"
    and "activeTween c = None"
    by (elim exE conjE)
  then have "map_option activeTween
        (chars (state_of (handleExitHistoryMode (state_of (handleEnterHistoryMode bouncing)))) ''bob'')
       = Some None" by simp
  then show ?thesis
    by (intro conjI bouncing_eval(3) bouncing_bob)
qed

text \<open>
  Bob starts speaking with the message \<open>hello\<close> of four seconds: in Live mode the pass
  leaves exactly one bubble, Bob's, with that text and a progress bar of four seconds.
\<close>

lemma hello_bubbles:
  "updateBubbles (updateCharacters (snapshot speaking idle [msg_hello]) Map.empty)
     (snapshot speaking idle [msg_hello]) Map.empty =
   Done [''bob'' \<mapsto> \<lparr>bubble_text = ''hello'', nameText = ''Bob'', nameColor = ''#3366ff'',
           moodText = '':)'', progressBar = Some 4, speaker_pos = (96, 240)\<rparr>]"
  by (simp add: snapshot_def bob_def alice_def msg_hello_def Let_def
      updateBubbles_def bubbleStep_def latestMessage_def updateCharacters_def
      updateCharacter_def clearBubbles_def createSpeechBubble_def updateCharacterState_fields
      del: not_None_eq)

lemma speaking_scenario:
  assumes "\<not> isInHistoryMode g"
  shows "activeBubbles (state_of (updateState (snapshot speaking idle [msg_hello]) g)) =
     [''bob'' \<mapsto> \<lparr>bubble_text = ''hello'', nameText = ''Bob'', nameColor = ''#3366ff'',
           moodText = '':)'', progressBar = Some 4, speaker_pos = (96, 240)\<rparr>]"
proof -
  have "map_outcome activeBubbles (updateState (snapshot speaking idle [msg_hello]) g) =
      updateBubbles (updateCharacters (snapshot speaking idle [msg_hello]) Map.empty)
        (snapshot speaking idle [msg_hello]) Map.empty"
    unfolding live_render(2) [OF assms] by (rule updateBubbles_after_updateCharacters)
  then have "state_of (map_outcome activeBubbles (updateState (snapshot speaking idle [msg_hello]) g))
      = [''bob'' \<mapsto> \<lparr>bubble_text = ''hello'', nameText = ''Bob'', nameColor = ''#3366ff'',
           moodText = '':)'', progressBar = Some 4, speaker_pos = (96, 240)\<rparr>]"
    by (simp only: hello_bubbles state_of.simps)
  then show ?thesis by (simp only: state_of_map_outcome)
qed

section \<open>Listener fan-out\<close>

lemma forEach_callback_calls:
  "state_of (forEach_callback cbs d log) = log @ map (\<lambda>cb. (cb, d)) (notified cbs)"
proof (induction cbs arbitrary: log)
  case Nil
  then show ?case by (simp add: notified_def)
next
  case (Cons cb cbs)
  show ?case
  proof (cases "cb_throws cb")
    case True
    then show ?thesis by (simp add: notified_def)
  next
    case False
    then have "notified (cb # cbs) = cb # notified cbs" by (simp add: notified_def)
    with False Cons.IH show ?thesis by simp
  qed
qed

lemma forEach_callback_raised:
  "raised (forEach_callback cbs d log) \<longleftrightarrow> (\<exists>cb\<in>set cbs. cb_throws cb)"
  by (induction cbs arbitrary: log) auto

lemma notified_all: "\<forall>cb\<in>set cbs. \<not> cb_throws cb \<Longrightarrow> notified cbs = cbs"
  by (induction cbs) (simp_all add: notified_def)

lemma notified_prefix:
  "cbs = before @ thrower # after \<Longrightarrow> \<forall>cb\<in>set before. \<not> cb_throws cb \<Longrightarrow> cb_throws thrower
     \<Longrightarrow> notified cbs = before @ [thrower]"
  by (induction before arbitrary: cbs) (simp_all add: notified_def)

lemma notifyListeners_fields:
  "socket (state_of (notifyListeners ev d s)) = socket s
   \<and> listeners (state_of (notifyListeners ev d s)) = listeners s
   \<and> reconnectAttempts (state_of (notifyListeners ev d s)) = reconnectAttempts s
   \<and> isConnecting (state_of (notifyListeners ev d s)) = isConnecting s"
  by (cases "listeners s ev")
     (simp_all add: notifyListeners_def state_of_map_outcome)

lemma notifyListeners_calls:
  "listeners s ev = Some cbs \<Longrightarrow>
     calls (state_of (notifyListeners ev d s)) = calls s @ map (\<lambda>cb. (cb, d)) (notified cbs)"
  by (simp add: notifyListeners_def state_of_map_outcome forEach_callback_calls)

lemma notifyListeners_raised:
  "listeners s ev = Some cbs \<Longrightarrow>
     raised (notifyListeners ev d s) \<longleftrightarrow> (\<exists>cb\<in>set cbs. cb_throws cb)"
  by (simp add: notifyListeners_def raised_map_outcome forEach_callback_raised)

text \<open>
  Claim C3, amended. Listeners are invoked in subscription order with the event's
  data. A listener that throws ends the fan-out: the listeners subscribed before it and
  the throwing listener itself have been invoked, those subscribed after it are not, and
  the exception reaches the caller. When no listener throws, every subscribed listener
  is invoked, once, in subscription order.
\<close>

theorem C3_fanout_stops_at_first_throw:
  assumes "listeners s ev = Some cbs"
  shows "calls (state_of (notifyListeners ev d s)) = calls s @ map (\<lambda>cb. (cb, d)) (notified cbs)
       \<and> (raised (notifyListeners ev d s) \<longleftrightarrow> (\<exists>cb\<in>set cbs. cb_throws cb))
       \<and> ((\<forall>cb\<in>set cbs. \<not> cb_throws cb) \<longrightarrow> notified cbs = cbs)
       \<and> (\<forall>before thrower after.
             cbs = before @ thrower # after \<longrightarrow> (\<forall>cb\<in>set before. \<not> cb_throws cb)
               \<longrightarrow> cb_throws thrower \<longrightarrow> notified cbs = before @ [thrower])"
  using assms
  by (simp add: notifyListeners_calls notifyListeners_raised notified_all notified_prefix)

lemma two_listeners_eval:
  "listeners two_listeners ev_scene_state = Some [Callback 1 True, Callback 2 False]"
  "calls two_listeners = []"
  by (simp_all add: two_listeners_def addListener_def initial_service_def)

text \<open>
  Claim C3 as stated fails: the second listener is subscribed, the first throws, and
  the second is never invoked.
\<close>

theorem C3_counterexample:
  "listeners two_listeners ev_scene_state = Some [Callback 1 True, Callback 2 False]
   \<and> calls (state_of (notifyListeners ev_scene_state NoData two_listeners))
       = [(Callback 1 True, NoData)]
   \<and> calls_to (Callback 2 False) (state_of (notifyListeners ev_scene_state NoData two_listeners)) = []"
  by (simp add: notifyListeners_calls [OF two_listeners_eval(1)] two_listeners_eval notified_def
      calls_to_def)

theorem C3_witness:
  "listeners two_listeners ev_scene_state = Some [Callback 1 True, Callback 2 False]
   \<and> calls (state_of (notifyListeners ev_scene_state NoData two_listeners))
       = [(Callback 1 True, NoData)]
   \<and> raised (notifyListeners ev_scene_state NoData two_listeners)"
  using C3_fanout_stops_at_first_throw [OF two_listeners_eval(1), of NoData]
  by (simp add: two_listeners_eval notified_def)


section \<open>Subscribing\<close>

lemma addListener_fields:
  "calls (addListener ev cb s) = calls s
   \<and> socket (addListener ev cb s) = socket s
   \<and> reconnectAttempts (addListener ev cb s) = reconnectAttempts s
   \<and> isConnecting (addListener ev cb s) = isConnecting s"
  by (simp add: addListener_def Let_def)

lemma addListener_listeners:
  "listeners (addListener ev cb s) ev =
     Some (let cbs = (case listeners s ev of None \<Rightarrow> [] | Some l \<Rightarrow> l)
           in if cb \<in> set cbs then cbs else cbs @ [cb])"
  by (simp add: addListener_def Let_def)

lemma filter_one:
  "distinct xs \<Longrightarrow> cb \<in> set xs \<Longrightarrow>
     map snd (filter (\<lambda>c. fst c = cb) (map (\<lambda>c. (c, d)) xs)) = [d]"
  by (induction xs) (auto simp: filter_empty_conv)

lemma deliver_scene_state:
  "socket s \<noteq> None \<Longrightarrow> deliver (sock_scene_state st) s = notifyListeners ev_scene_state (SceneData st) s"
  by (auto simp: deliver_def on_scene_state_def)

text \<open>
  Claim C8, amended. Subscribing delivers nothing: \<open>addListener\<close> puts the callback into
  the event's listener set and invokes no callback, whether or not a snapshot was pushed
  before. The listener is invoked once for each snapshot pushed after it subscribed, as
  long as the socket is held and no snapshot listener throws.
\<close>

theorem C8_no_replay_on_attach:
  "calls (addListener ev cb s) = calls s
   \<and> (\<exists>cbs. listeners (addListener ev cb s) ev = Some cbs \<and> cb \<in> set cbs)
   \<and> (socket s \<noteq> None \<longrightarrow> \<not> cb_throws cb
        \<longrightarrow> set_like ev_scene_state s \<longrightarrow> quiet ev_scene_state s
        \<longrightarrow> calls_to cb (state_of (deliver (sock_scene_state st) (addListener ev_scene_state cb s)))
              = calls_to cb s @ [SceneData st])"
proof (intro conjI impI)
  show "calls (addListener ev cb s) = calls s"
    by (simp add: addListener_fields)
  show "\<exists>cbs. listeners (addListener ev cb s) ev = Some cbs \<and> cb \<in> set cbs"
    by (simp add: addListener_listeners Let_def)
next
  let ?s = "addListener ev_scene_state cb s"
  assume held: "socket s \<noteq> None" and ok: "\<not> cb_throws cb"
    and inv: "set_like ev_scene_state s" "quiet ev_scene_state s"
  obtain cbs where cbs: "listeners ?s ev_scene_state = Some cbs"
    and mem: "cb \<in> set cbs" and dist: "distinct cbs" and quiet: "\<forall>c\<in>set cbs. \<not> cb_throws c"
    using ok inv
    by (cases "listeners s ev_scene_state")
       (auto simp: addListener_listeners Let_def set_like_def quiet_def list_all_iff)
  have "socket ?s \<noteq> None" using held by (simp add: addListener_fields)
  then have "calls (state_of (deliver (sock_scene_state st) ?s))
               = calls ?s @ map (\<lambda>c. (c, SceneData st)) cbs"
    by (simp add: deliver_scene_state notifyListeners_calls [OF cbs] notified_all [OF quiet])
  then show "calls_to cb (state_of (deliver (sock_scene_state st) ?s)) = calls_to cb s @ [SceneData st]"
    by (simp add: calls_to_def addListener_fields filter_one [OF dist mem])
qed

theorem C8_witness:
  "socket (connect initial_service) \<noteq> None
   \<and> calls (addListener ev_scene_state (Callback 11 False) (connect initial_service)) = []
   \<and> calls_to (Callback 11 False)
        (state_of (deliver (sock_scene_state (snapshot idle idle []))
           (addListener ev_scene_state (Callback 11 False) (connect initial_service))))
       = [SceneData (snapshot idle idle [])]"
proof -
  have h: "socket (connect initial_service) \<noteq> None" "\<not> cb_throws (Callback 11 False)"
    "set_like ev_scene_state (connect initial_service)" "quiet ev_scene_state (connect initial_service)"
    "calls (connect initial_service) = []"
    by (simp_all add: connect_def initial_service_def set_like_def quiet_def)
  show ?thesis
    using C8_no_replay_on_attach [of ev_scene_state "Callback 11 False" "connect initial_service"
        "snapshot idle idle []"] h
    by (simp add: calls_to_def)
qed

lemma first_subscriber_eval:
  "socket (connect (addListener ev_scene_state (Callback 10 False) initial_service)) \<noteq> None"
  "listeners (connect (addListener ev_scene_state (Callback 10 False) initial_service)) ev_scene_state
     = Some [Callback 10 False]"
  "calls (connect (addListener ev_scene_state (Callback 10 False) initial_service)) = []"
  by (simp_all add: connect_def addListener_def initial_service_def)

text \<open>
  Claim C8 as stated fails: a snapshot was pushed and delivered to the first listener;
  the listener that subscribes afterwards has received nothing.
\<close>

theorem C8_counterexample:
  "calls_to (Callback 10 False) late_subscriber = [SceneData (snapshot idle idle [])]
   \<and> calls_to (Callback 11 False) late_subscriber = []"
  by (simp add: late_subscriber_def calls_to_def addListener_fields
      deliver_scene_state [OF first_subscriber_eval(1)]
      notifyListeners_calls [OF first_subscriber_eval(2)] first_subscriber_eval(3) notified_def)

section \<open>Reconnection\<close>

lemma notifyListeners_quiet: "quiet ev s \<Longrightarrow> \<not> raised (notifyListeners ev d s)"
  by (cases "listeners s ev")
     (simp_all add: quiet_def notifyListeners_def raised_map_outcome forEach_callback_raised
        list_all_iff)


lemma deliver_connect_error_quiet:
  assumes "socket s \<noteq> None" and "quiet ev_connect_error s"
  shows "socket (state_of (deliver (sock_connect_error m) s))
           = (if reconnectAttempts s + 1 \<ge> MAX_RECONNECT_ATTEMPTS then None else socket s)"
    and "reconnectAttempts (state_of (deliver (sock_connect_error m) s)) = reconnectAttempts s + 1"
    and "listeners (state_of (deliver (sock_connect_error m) s)) = listeners s"
    and "isConnecting (state_of (deliver (sock_connect_error m) s))
           = (if reconnectAttempts s + 1 \<ge> MAX_RECONNECT_ATTEMPTS then False else isConnecting s)"
    and "\<not> raised (deliver (sock_connect_error m) s)"
proof -
  let ?s1 = "s\<lparr>reconnectAttempts := Suc (reconnectAttempts s)\<rparr>"
  let ?n = "notifyListeners ev_connect_error (ErrorData m) ?s1"
  have "quiet ev_connect_error ?s1" using assms(2) by (simp add: quiet_def)
  then have "\<not> raised ?n" by (rule notifyListeners_quiet)
  then obtain s2 where n: "?n = Done s2" by (cases ?n) simp_all
  have d: "deliver (sock_connect_error m) s =
      (if reconnectAttempts s2 \<ge> MAX_RECONNECT_ATTEMPTS then Done (disconnect s2) else Done s2)"
    by (simp add: deliver_def on_connect_error_def n)
  have f: "socket s2 = socket s" "reconnectAttempts s2 = reconnectAttempts s + 1"
    "listeners s2 = listeners s" "isConnecting s2 = isConnecting s"
    using notifyListeners_fields [of ev_connect_error "ErrorData m" ?s1] by (simp_all add: n)
  show "socket (state_of (deliver (sock_connect_error m) s))
           = (if reconnectAttempts s + 1 \<ge> MAX_RECONNECT_ATTEMPTS then None else socket s)"
    and "reconnectAttempts (state_of (deliver (sock_connect_error m) s)) = reconnectAttempts s + 1"
    and "listeners (state_of (deliver (sock_connect_error m) s)) = listeners s"
    and "isConnecting (state_of (deliver (sock_connect_error m) s))
           = (if reconnectAttempts s + 1 \<ge> MAX_RECONNECT_ATTEMPTS then False else isConnecting s)"
    and "\<not> raised (deliver (sock_connect_error m) s)"
    using assms(1) f unfolding d by (auto simp: disconnect_def split: option.splits)
qed

lemma deliver_connect_error_thrown:
  assumes "\<not> quiet ev_connect_error s"
  shows "socket (state_of (deliver (sock_connect_error m) s)) = socket s"
    and "reconnectAttempts (state_of (deliver (sock_connect_error m) s)) = reconnectAttempts s + 1"
    and "raised (deliver (sock_connect_error m) s)"
proof -
  let ?s1 = "s\<lparr>reconnectAttempts := Suc (reconnectAttempts s)\<rparr>"
  let ?n = "notifyListeners ev_connect_error (ErrorData m) ?s1"
  from assms obtain cbs where "listeners ?s1 ev_connect_error = Some cbs"
    and "\<exists>cb\<in>set cbs. cb_throws cb"
    by (cases "listeners s ev_connect_error") (auto simp: quiet_def list_all_iff)
  then have "raised ?n" by (simp add: notifyListeners_raised)
  then obtain e s2 where n: "?n = Raised e s2" by (cases ?n) simp_all
  have d: "deliver (sock_connect_error m) s = Raised e s2"
    by (simp add: deliver_def on_connect_error_def n)
  have f: "socket s2 = socket s" "reconnectAttempts s2 = reconnectAttempts s + 1"
    using notifyListeners_fields [of ev_connect_error "ErrorData m" ?s1] by (simp_all add: n)
  show "socket (state_of (deliver (sock_connect_error m) s)) = socket s"
    and "reconnectAttempts (state_of (deliver (sock_connect_error m) s)) = reconnectAttempts s + 1"
    and "raised (deliver (sock_connect_error m) s)"
    using f unfolding d by simp_all
qed

text \<open>One more error whose handler returns: the run goes on from the state it leaves.\<close>

lemma run_socket_error_quiet:
  assumes "socket s \<noteq> None" and "quiet ev_connect_error s"
  shows "run_socket (sock_connect_error m # es) s
           = run_socket es (state_of (deliver (sock_connect_error m) s))"
    and "handled (sock_connect_error m # es) s
           = Suc (handled es (state_of (deliver (sock_connect_error m) s)))"
proof -
  from deliver_connect_error_quiet(5) [OF assms, of m]
  obtain s' where d: "deliver (sock_connect_error m) s = Done s'"
    by (cases "deliver (sock_connect_error m) s") simp_all
  show "run_socket (sock_connect_error m # es) s
           = run_socket es (state_of (deliver (sock_connect_error m) s))"
    and "handled (sock_connect_error m # es) s
           = Suc (handled es (state_of (deliver (sock_connect_error m) s)))"
    using assms(1) by (auto simp: d)
qed

text \<open>An error whose handler throws is the only one that occurs.\<close>

lemma handled_error_thrown:
  assumes "socket s \<noteq> None" and "\<not> quiet ev_connect_error s"
  shows "handled (sock_connect_error m # es) s = 1"
proof -
  from deliver_connect_error_thrown(3) [OF assms(2), of m]
  obtain e s' where "deliver (sock_connect_error m) s = Raised e s'"
    by (cases "deliver (sock_connect_error m) s") simp_all
  then show ?thesis using assms(1) by auto
qed

declare run_socket.simps(2) [simp del] handled.simps(2) [simp del]

lemma errors_below_limit:
  "socket s \<noteq> None \<Longrightarrow> quiet ev_connect_error s
     \<Longrightarrow> reconnectAttempts s + length msgs < MAX_RECONNECT_ATTEMPTS \<Longrightarrow>
     socket (run_socket (map sock_connect_error msgs) s) = socket s
     \<and> reconnectAttempts (run_socket (map sock_connect_error msgs) s) = reconnectAttempts s + length msgs
     \<and> listeners (run_socket (map sock_connect_error msgs) s) = listeners s
     \<and> isConnecting (run_socket (map sock_connect_error msgs) s) = isConnecting s
     \<and> handled (map sock_connect_error msgs) s = length msgs"
proof (induction msgs arbitrary: s)
  case Nil
  then show ?case by simp
next
  case (Cons m msgs)
  let ?t = "state_of (deliver (sock_connect_error m) s)"
  note d = deliver_connect_error_quiet [OF Cons.prems(1,2), of m]
  have t: "socket ?t = socket s" "reconnectAttempts ?t = reconnectAttempts s + 1"
    "listeners ?t = listeners s" "isConnecting ?t = isConnecting s"
    using d(1-4) Cons.prems(3) by simp_all
  have held: "socket ?t \<noteq> None" using t(1) Cons.prems(1) by simp
  have q: "quiet ev_connect_error ?t" using Cons.prems(2) t(3) by (simp add: quiet_def)
  have "reconnectAttempts ?t + length msgs < MAX_RECONNECT_ATTEMPTS"
    using t(2) Cons.prems(3) by simp
  from Cons.IH [OF held q this] show ?case
    by (simp add: run_socket_error_quiet [OF Cons.prems(1,2)] t)
qed



lemma retrying_eval:
  "socket (retrying cb) = Some \<lparr>sock_connected = False\<rparr>"
  "reconnectAttempts (retrying cb) = 0"
  "isConnecting (retrying cb)"
  "quiet ev_connect_error (retrying cb) = (\<not> cb_throws cb)"
  by (simp_all add: retrying_def connect_def addListener_def initial_service_def quiet_def)


text \<open>
  With a listener of connect_error that throws, the first error is the only one: the
  counter stands at one, the socket is still held, and the other four do not occur.
\<close>

lemma throwing_listener_ends_retries:
  "handled (map sock_connect_error [''e1'', ''e2'', ''e3'', ''e4'', ''e5''])
     (retrying (Callback 20 True)) = 1"
proof -
  have held: "socket (retrying (Callback 20 True)) \<noteq> None"
    and loud: "\<not> quiet ev_connect_error (retrying (Callback 20 True))"
    by (simp_all add: retrying_eval)
  show ?thesis
    using handled_error_thrown [OF held loud] by simp
qed

section \<open>disconnect\<close>

lemma deliver_connect_resets:
  "reconnectAttempts (state_of (deliver sock_connect s)) = 0"
  by (simp add: deliver_def on_connect_def notifyListeners_fields)

text \<open>
  Claim C7, amended. \<open>disconnect()\<close> releases the socket and, when a socket was held,
  clears the connecting flag; the attempt counter, the listeners and the call record
  stay as they are, and without a socket nothing changes at all. The counter returns to
  zero when a \<open>connect\<close> event arrives.
\<close>

theorem C7_disconnect_keeps_counter:
  "socket (disconnect s) = None
   \<and> reconnectAttempts (disconnect s) = reconnectAttempts s
   \<and> listeners (disconnect s) = listeners s
   \<and> calls (disconnect s) = calls s
   \<and> (socket s \<noteq> None \<longrightarrow> \<not> isConnecting (disconnect s))
   \<and> (socket s = None \<longrightarrow> disconnect s = s)
   \<and> (socket s \<noteq> None \<longrightarrow> reconnectAttempts (state_of (deliver sock_connect s)) = 0)"
  by (cases "socket s") (simp_all add: disconnect_def deliver_connect_resets)

text \<open>
  Claim C7 as stated fails: after two connection errors \<open>disconnect()\<close> leaves the
  counter at two.
\<close>

theorem C7_counterexample:
  "reconnectAttempts (disconnect (run_socket (map sock_connect_error [''e1'', ''e2''])
        (retrying (Callback 21 False)))) = 2"
proof -
  have h1: "socket (retrying (Callback 21 False)) \<noteq> None"
    and h3: "quiet ev_connect_error (retrying (Callback 21 False))"
    by (simp_all add: retrying_eval)
  show ?thesis
    using errors_below_limit [OF h1 h3, of "[''e1'', ''e2'']"]
    by (simp add: retrying_eval MAX_RECONNECT_ATTEMPTS_def disconnect_def split: option.splits)
qed

theorem C7_witness:
  "socket (retrying (Callback 21 False)) = Some \<lparr>sock_connected = False\<rparr>
   \<and> socket (disconnect (retrying (Callback 21 False))) = None
   \<and> \<not> isConnecting (disconnect (retrying (Callback 21 False)))
   \<and> reconnectAttempts (disconnect (retrying (Callback 21 False)))
        = reconnectAttempts (retrying (Callback 21 False))"
  using C7_disconnect_keeps_counter [of "retrying (Callback 21 False)"]
  by (simp add: retrying_eval)

end
